theory Spec2Isabelle
  imports Complex_Main
begin

section \<open>The Hangman drawing component (src/components/Hangman/Hangman.jsx)\<close>

subsection \<open>Numbers\<close>

text \<open>
  A JavaScript number as the component uses it. \<open>Some q\<close> is the finite number \<open>q\<close>;
  \<open>None\<close> is a value that is not a finite number: \<open>undefined\<close> (the initial \<open>size\<close>
  of \<open>useState()\<close>), which arithmetic and the canvas calls coerce to NaN, and the
  result of a division by zero. Finite numbers are taken exact (rationals): rounding
  of doubles is not modelled.
\<close>

type_synonym number = "rat option"

fun jsdiv :: "number \<Rightarrow> number \<Rightarrow> number" where
  "jsdiv (Some a) (Some b) = (if b = 0 then None else Some (a / b))"
| "jsdiv _ _ = None"

fun jsadd :: "number \<Rightarrow> number \<Rightarrow> number" where
  "jsadd (Some a) (Some b) = Some (a + b)"
| "jsadd _ _ = None"

fun jssub :: "number \<Rightarrow> number \<Rightarrow> number" where
  "jssub (Some a) (Some b) = Some (a - b)"
| "jssub _ _ = None"

fun jsmul :: "number \<Rightarrow> number \<Rightarrow> number" where
  "jsmul (Some a) (Some b) = Some (a * b)"
| "jsmul _ _ = None"

text \<open>Angles are recorded in units of \<open>\<pi>\<close>, so that they stay rational: \<open>Math.PI\<close> is 1.\<close>

definition Math_PI :: number where
  "Math_PI = Some 1"

subsection \<open>The 2D canvas context\<close>

text \<open>
  The part of \<open>CanvasRenderingContext2D\<close> the component calls. \<open>path\<close> is the current
  path, \<open>strokes\<close> is the bitmap: the \<open>stroke()\<close> calls that have marked it since it was
  last cleared, each with the line width and the path in force, oldest first.
\<close>

datatype pathCmd =
  MoveTo rat rat
| LineTo rat rat
| Arc rat rat rat rat rat bool

type_synonym strokeMark = "rat \<times> pathCmd list"

record canvasContext =
  lineWidth :: rat
  path :: "pathCmd list"
  strokes :: "strokeMark list"

datatype error = IndexSizeError | TypeError

definition beginPath :: "canvasContext \<Rightarrow> canvasContext" where
  "beginPath c = c\<lparr>path := []\<rparr>"

text \<open>A call with an argument that is not a finite number is ignored.\<close>

definition moveTo :: "number \<Rightarrow> number \<Rightarrow> canvasContext \<Rightarrow> canvasContext" where
  "moveTo x y c =
     (case x of None \<Rightarrow> c | Some a \<Rightarrow>
      (case y of None \<Rightarrow> c | Some b \<Rightarrow> c\<lparr>path := path c @ [MoveTo a b]\<rparr>))"

text \<open>On an empty path \<open>lineTo\<close> only sets the starting point.\<close>

definition lineTo :: "number \<Rightarrow> number \<Rightarrow> canvasContext \<Rightarrow> canvasContext" where
  "lineTo x y c =
     (case x of None \<Rightarrow> c | Some a \<Rightarrow>
      (case y of None \<Rightarrow> c | Some b \<Rightarrow>
         (if path c = [] then c\<lparr>path := [MoveTo a b]\<rparr>
          else c\<lparr>path := path c @ [LineTo a b]\<rparr>)))"

text \<open>\<open>arc\<close> throws IndexSizeError on a negative radius.\<close>

definition arc ::
  "number \<Rightarrow> number \<Rightarrow> number \<Rightarrow> number \<Rightarrow> number \<Rightarrow> bool \<Rightarrow> canvasContext
     \<Rightarrow> error + canvasContext" where
  "arc x y radius startAngle endAngle counterclockwise c =
     (case x of None \<Rightarrow> Inr c | Some a \<Rightarrow>
      (case y of None \<Rightarrow> Inr c | Some b \<Rightarrow>
      (case radius of None \<Rightarrow> Inr c | Some r \<Rightarrow>
      (case startAngle of None \<Rightarrow> Inr c | Some sa \<Rightarrow>
      (case endAngle of None \<Rightarrow> Inr c | Some ea \<Rightarrow>
         (if r < 0 then Inl IndexSizeError
          else Inr (c\<lparr>path := path c @ [Arc a b r sa ea counterclockwise]\<rparr>)))))))"

definition stroke :: "canvasContext \<Rightarrow> canvasContext" where
  "stroke c = c\<lparr>strokes := strokes c @ [(lineWidth c, path c)]\<rparr>"

text \<open>
  A canvas element as created: default line width 1, no path, a transparent bitmap.
  Setting its \<open>width\<close> or \<open>height\<close> attribute puts it back into this state.
\<close>

definition freshCanvas :: canvasContext where
  "freshCanvas = \<lparr>lineWidth = 1, path = [], strokes = []\<rparr>"

subsection \<open>getHangmanParts (lines 13-90)\<close>

type_synonym drawFn = "canvasContext \<Rightarrow> error + canvasContext"

definition bodyHeight :: "number \<Rightarrow> number" where
  "bodyHeight size' = jsdiv size' (Some 2)"

definition appendageWidth :: "number \<Rightarrow> number" where
  "appendageWidth size' = jsdiv (bodyHeight size') (Some 3)"

definition platform :: "number \<Rightarrow> drawFn" where
  "platform size' canvasContext =
     (let c1 = canvasContext\<lparr>lineWidth := 10\<rparr>;
          c2 = beginPath c1;
          c3 = moveTo (Some 0) size' c2;
          c4 = lineTo size' size' c3
      in Inr (stroke c4))"

definition post :: "number \<Rightarrow> drawFn" where
  "post size' canvasContext =
     (let c1 = canvasContext\<lparr>lineWidth := 10\<rparr>;
          c2 = beginPath c1;
          c3 = moveTo (Some 0) (Some 0) c2;
          c4 = lineTo (Some 0) size' c3
      in Inr (stroke c4))"

definition pole :: "number \<Rightarrow> drawFn" where
  "pole size' canvasContext =
     (let c1 = canvasContext\<lparr>lineWidth := 10\<rparr>;
          c2 = beginPath c1;
          c3 = moveTo (Some 0) (Some 0) c2;
          c4 = lineTo (jsdiv size' (Some 2)) (Some 0) c3
      in Inr (stroke c4))"

definition rope :: "number \<Rightarrow> drawFn" where
  "rope size' canvasContext =
     (let c1 = beginPath canvasContext;
          c2 = moveTo (jsdiv size' (Some 2)) (Some 0) c1;
          c3 = lineTo (jsdiv size' (Some 2)) (jsdiv size' (Some 10)) c2
      in Inr (stroke c3))"

definition head :: "number \<Rightarrow> drawFn" where
  "head size' canvasContext =
     (let c1 = beginPath canvasContext
      in case arc (jsdiv size' (Some 2))
                  (jsadd (jsdiv size' (Some 10)) (jsdiv size' (Some 16)))
                  (jsdiv size' (Some 16))
                  (Some 0) (jsmul Math_PI (Some 2)) True c1 of
           Inl e \<Rightarrow> Inl e
         | Inr c2 \<Rightarrow> Inr (stroke c2))"

definition body :: "number \<Rightarrow> drawFn" where
  "body size' canvasContext =
     (let c1 = beginPath canvasContext;
          c2 = moveTo (jsdiv size' (Some 2))
                      (jsadd (jsdiv size' (Some 10)) (jsdiv size' (Some 8))) c1;
          c3 = lineTo (jsdiv size' (Some 2)) (jssub size' (bodyHeight size')) c2
      in Inr (stroke c3))"

definition leftArm :: "number \<Rightarrow> drawFn" where
  "leftArm size' canvasContext =
     (let c1 = beginPath canvasContext;
          c2 = moveTo (jsdiv size' (Some 2)) (jsdiv size' (Some 3)) c1;
          c3 = lineTo (jssub (jsdiv size' (Some 2)) (appendageWidth size'))
                      (jsdiv size' (Some 3)) c2
      in Inr (stroke c3))"

definition rightArm :: "number \<Rightarrow> drawFn" where
  "rightArm size' canvasContext =
     (let c1 = beginPath canvasContext;
          c2 = moveTo (jsdiv size' (Some 2)) (jsdiv size' (Some 3)) c1;
          c3 = lineTo (jsadd (jsdiv size' (Some 2)) (appendageWidth size'))
                      (jsdiv size' (Some 3)) c2
      in Inr (stroke c3))"

definition leftLeg :: "number \<Rightarrow> drawFn" where
  "leftLeg size' canvasContext =
     (let c1 = beginPath canvasContext;
          c2 = moveTo (jsdiv size' (Some 2)) (jssub size' (bodyHeight size')) c1;
          c3 = lineTo (jssub (jsdiv size' (Some 2)) (appendageWidth size'))
                      (jsadd (jssub size' (bodyHeight size')) (appendageWidth size')) c2
      in Inr (stroke c3))"

definition rightLeg :: "number \<Rightarrow> drawFn" where
  "rightLeg size' canvasContext =
     (let c1 = beginPath canvasContext;
          c2 = moveTo (jsdiv size' (Some 2)) (jssub size' (bodyHeight size')) c1;
          c3 = lineTo (jsadd (jsdiv size' (Some 2)) (appendageWidth size'))
                      (jsadd (jssub size' (bodyHeight size')) (appendageWidth size')) c2
      in Inr (stroke c3))"

definition getHangmanParts :: "number \<Rightarrow> drawFn list" where
  "getHangmanParts size' =
     [platform size', post size', pole size', rope size', head size', body size',
      leftArm size', rightArm size', leftLeg size', rightLeg size']"

subsection \<open>draw and clearCanvas (lines 93-102)\<close>

definition draw :: "canvasContext \<Rightarrow> drawFn \<Rightarrow> error + canvasContext" where
  "draw canvasContext drawFn = drawFn (canvasContext\<lparr>lineWidth := 2\<rparr>)"

text \<open>
  \<open>clearRect(0, 0, canvas.width, canvas.height)\<close> covers the whole bitmap, so every
  mark on it goes; the line width and the current path stay.
\<close>

definition clearCanvas :: "canvasContext \<Rightarrow> canvasContext" where
  "clearCanvas c = c\<lparr>strokes := []\<rparr>"

text \<open>\<open>partsToDraw.forEach(f => draw(context, f))\<close>: an exception ends the loop.\<close>

fun forEach_draw :: "canvasContext \<Rightarrow> drawFn list \<Rightarrow> error + canvasContext" where
  "forEach_draw c [] = Inr c"
| "forEach_draw c (f # fs) =
     (case draw c f of Inl e \<Rightarrow> Inl e | Inr c' \<Rightarrow> forEach_draw c' fs)"

text \<open>
  \<open>Array.prototype.slice(start, end)\<close> on integer arguments: a negative index counts
  from the end of the array, and both bounds are clamped to the array.
\<close>

definition slice :: "'a list \<Rightarrow> int \<Rightarrow> int \<Rightarrow> 'a list" where
  "slice xs start end' =
     (let len = int (length xs);
          k = (if start < 0 then max (len + start) 0 else min start len);
          final = (if end' < 0 then max (len + end') 0 else min end' len)
      in take (nat (final - k)) (drop (nat k) xs))"

subsection \<open>The Hangman component (lines 113-170)\<close>

text \<open>
  One mounted instance. \<open>incorrectGuessCount\<close> is the prop of the last render and
  \<open>sizeState\<close> the \<open>size\<close> of \<open>useState\<close> at the last render: the dependencies the
  hooks compare against. \<open>hangmanParts\<close> is the array \<open>useMemo\<close> holds and
  \<open>partsInstance\<close> counts the calls of \<open>getHangmanParts\<close>, so that it identifies the
  array instance. \<open>canvas\<close> is the context of \<open>canvasRef.current\<close>; \<open>containerRef\<close>
  tells whether \<open>containerRef.current\<close> is an element (React sets it to null on
  unmount); \<open>listening\<close> whether \<open>resizeCanvasDebounce\<close> is registered for the window's
  resize event; \<open>pending\<close> whether the timer of \<open>debounce(resizeCanvas, 50)\<close> is armed.
\<close>

record hangman =
  incorrectGuessCount :: int
  sizeState :: number
  hangmanParts :: "drawFn list"
  partsInstance :: nat
  drawnPartsRef :: int
  previousIncorrectGuessCountRef :: int
  canvas :: canvasContext
  containerRef :: bool
  listening :: bool
  pending :: bool

text \<open>Lines 133-136.\<close>

definition resetCanvas :: "hangman \<Rightarrow> hangman" where
  "resetCanvas h = h\<lparr>canvas := clearCanvas (canvas h), drawnPartsRef := 0\<rparr>"

text \<open>Lines 157-162 of the draw effect.\<close>

definition forwardDraw :: "int \<Rightarrow> hangman \<Rightarrow> error + hangman" where
  "forwardDraw n h =
     (let h1 = h\<lparr>previousIncorrectGuessCountRef := n\<rparr>;
          partsToDraw = slice (hangmanParts h1) (drawnPartsRef h1) n
      in case forEach_draw (canvas h1) partsToDraw of
           Inl e \<Rightarrow> Inl e
         | Inr c \<Rightarrow> Inr (h1\<lparr>canvas := c, drawnPartsRef := n\<rparr>))"

text \<open>The draw effect, lines 149-163, run with the prop \<open>n\<close>.\<close>

definition drawEffect :: "int \<Rightarrow> hangman \<Rightarrow> error + hangman" where
  "drawEffect n h =
     forwardDraw n (if previousIncorrectGuessCountRef h > n then resetCanvas h else h)"

text \<open>
  A re-render of the mounted component with state \<open>size = size'\<close> and prop \<open>n\<close>.
  \<open>useMemo\<close> calls \<open>getHangmanParts\<close> again only when \<open>size\<close> differs from the last
  render's; the canvas element gets new \<open>width\<close> and \<open>height\<close> attributes then (line
  167). After the commit the effects run in the order of the source, each only when
  one of its dependencies changed: \<open>resetCanvas\<close> on \<open>[size]\<close> (line 146), the draw
  effect on \<open>[hangmanParts, incorrectGuessCount]\<close>.
\<close>

definition render :: "number \<Rightarrow> int \<Rightarrow> hangman \<Rightarrow> error + hangman" where
  "render size' n h =
     (let sizeChanged = (size' \<noteq> sizeState h);
          countChanged = (n \<noteq> incorrectGuessCount h);
          h1 = (if sizeChanged
                then h\<lparr>sizeState := size', hangmanParts := getHangmanParts size',
                       partsInstance := Suc (partsInstance h), canvas := freshCanvas\<rparr>
                else h);
          h2 = h1\<lparr>incorrectGuessCount := n\<rparr>;
          h3 = (if sizeChanged then resetCanvas h2 else h2)
      in if sizeChanged \<or> countChanged then drawEffect n h3 else Inr h3)"

text \<open>
  Mounting with prop \<open>n\<close> in a container whose computed width is \<open>w\<close> pixels. The
  first render has \<open>size\<close> undefined. Its effects: the resize effect (lines 139-143)
  calls \<open>resizeCanvas\<close>, which queues \<open>setSize(w)\<close>, and registers the listener; then
  \<open>resetCanvas\<close>; then the draw effect. The queued state update re-renders.
\<close>

definition mount :: "int \<Rightarrow> nat \<Rightarrow> error + hangman" where
  "mount n w =
     (let h0 = \<lparr>incorrectGuessCount = n, sizeState = None,
                hangmanParts = getHangmanParts None, partsInstance = 1,
                drawnPartsRef = 0, previousIncorrectGuessCountRef = n,
                canvas = freshCanvas, containerRef = True,
                listening = False, pending = False\<rparr>;
          h1 = h0\<lparr>listening := True\<rparr>;
          h2 = resetCanvas h1
      in case drawEffect n h2 of
           Inl e \<Rightarrow> Inl e
         | Inr h3 \<Rightarrow> render (Some (of_nat w)) n h3)"

text \<open>The parent renders the component again with prop \<open>n\<close>.\<close>

definition update :: "int \<Rightarrow> hangman \<Rightarrow> error + hangman" where
  "update n h = render (sizeState h) n h"

fun updates :: "int list \<Rightarrow> hangman \<Rightarrow> error + hangman" where
  "updates [] h = Inr h"
| "updates (n # ns) h =
     (case update n h of Inl e \<Rightarrow> Inl e | Inr h' \<Rightarrow> updates ns h')"

text \<open>
  \<open>resizeCanvas\<close> (lines 123-127) when the container's computed width is \<open>w\<close>:
  \<open>getComputedStyle(null)\<close> throws a TypeError.
\<close>

definition resizeCanvas :: "nat \<Rightarrow> hangman \<Rightarrow> error + hangman" where
  "resizeCanvas w h =
     (if containerRef h then render (Some (of_nat w)) (incorrectGuessCount h) h
      else Inl TypeError)"

text \<open>
  The window dispatches a resize event: a registered \<open>resizeCanvasDebounce\<close> arms its
  timer anew. When the timer runs out, \<open>debounce\<close> calls \<open>resizeCanvas\<close>.
\<close>

definition windowResize :: "hangman \<Rightarrow> hangman" where
  "windowResize h = (if listening h then h\<lparr>pending := True\<rparr> else h)"

definition timerFires :: "nat \<Rightarrow> hangman \<Rightarrow> error + hangman" where
  "timerFires w h = (if pending h then resizeCanvas w (h\<lparr>pending := False\<rparr>) else Inr h)"

text \<open>Unmounting runs the cleanup of the resize effect (line 142) and detaches the refs.\<close>

definition unmount :: "hangman \<Rightarrow> hangman" where
  "unmount h = h\<lparr>listening := False, containerRef := False\<rparr>"

subsection \<open>Notions the properties are stated with\<close>

text \<open>The marks that drawing \<open>fs\<close> in order leaves on a cleared canvas.\<close>

definition painted :: "drawFn list \<Rightarrow> strokeMark list" where
  "painted fs = (case forEach_draw freshCanvas fs of Inl e \<Rightarrow> [] | Inr c \<Rightarrow> strokes c)"

text \<open>The path one part strokes.\<close>

definition partPath :: "drawFn \<Rightarrow> pathCmd list" where
  "partPath f = (case draw freshCanvas f of Inl e \<Rightarrow> [] | Inr c \<Rightarrow> path c)"

text \<open>The horizontal and vertical extent of a path that is one line segment.\<close>

fun extent :: "pathCmd list \<Rightarrow> (rat \<times> rat) option" where
  "extent [MoveTo x0 y0, LineTo x1 y1] = Some (x1 - x0, y1 - y0)"
| "extent _ = None"

definition lengthSquared :: "pathCmd list \<Rightarrow> rat option" where
  "lengthSquared p = (case extent p of None \<Rightarrow> None | Some (dx, dy) \<Rightarrow> Some (dx * dx + dy * dy))"

text \<open>A size the container can have: undefined, or a number that is not negative.\<close>

definition sizeOk :: "number \<Rightarrow> bool" where
  "sizeOk size' = (case size' of None \<Rightarrow> True | Some s \<Rightarrow> 0 \<le> s)"

text \<open>
  The state between two renders, whatever the guess counts were: the size is one the
  container can have, the parts are those of that size, and both refs hold the count
  of the last render.
\<close>

definition committed :: "hangman \<Rightarrow> bool" where
  "committed h =
     (sizeOk (sizeState h) \<and> hangmanParts h = getHangmanParts (sizeState h) \<and>
      previousIncorrectGuessCountRef h = drawnPartsRef h \<and>
      incorrectGuessCount h = drawnPartsRef h)"

text \<open>
  The state between two renders when no guess count so far was negative: the count is
  not negative and the bitmap shows the first \<open>drawnPartsRef\<close> parts, each once, in
  order.
\<close>

definition rendered :: "hangman \<Rightarrow> bool" where
  "rendered h =
     (committed h \<and> 0 \<le> drawnPartsRef h \<and>
      strokes (canvas h) = painted (take (nat (drawnPartsRef h)) (hangmanParts h)))"

text \<open>
  A drawing function that never throws and leaves exactly one mark, the same on every
  canvas: it replaces the path, settles the line width and strokes once.
\<close>

definition strokesOnce :: "drawFn \<Rightarrow> bool" where
  "strokesOnce f =
     (\<exists>lw p. \<forall>c. draw c f = Inr (c\<lparr>lineWidth := lw, path := p, strokes := strokes c @ [(lw, p)]\<rparr>))"

section \<open>Auxiliary facts\<close>

subsection \<open>slice, and parts that stroke once\<close>

lemma slice_nonneg:
  "0 \<le> d \<Longrightarrow> 0 \<le> n \<Longrightarrow> slice xs d n = take (nat (n - d)) (drop (nat d) xs)"
  by (auto simp: slice_def Let_def min_def)

lemma slice_same: "slice xs n n = []"
  by (simp add: slice_def Let_def)

lemma slice_from_zero: "0 \<le> n \<Longrightarrow> slice xs 0 n = take (nat n) xs"
  by (simp add: slice_nonneg)

lemma slice_zero_negative:
  "n < 0 \<Longrightarrow> slice xs 0 n = take (nat (int (length xs) + n)) xs"
  by (auto simp: slice_def Let_def max_def)

lemma set_slice: "set (slice xs a b) \<subseteq> set xs"
  unfolding slice_def Let_def
  by (meson set_take_subset set_drop_subset subset_trans)

lemmas part_defs = platform_def post_def pole_def rope_def head_def body_def
  leftArm_def rightArm_def leftLeg_def rightLeg_def

lemmas canvas_defs = draw_def beginPath_def moveTo_def lineTo_def arc_def stroke_def
  bodyHeight_def appendageWidth_def Math_PI_def

lemma strokesOnce_parts_undefined:
  "f \<in> set (getHangmanParts None) \<Longrightarrow> strokesOnce f"
  unfolding getHangmanParts_def strokesOnce_def
  by (auto simp: part_defs canvas_defs Let_def; (intro exI allI, rule refl))

lemma strokesOnce_parts_number:
  "0 \<le> s \<Longrightarrow> f \<in> set (getHangmanParts (Some s)) \<Longrightarrow> strokesOnce f"
  unfolding getHangmanParts_def strokesOnce_def
  by (auto simp: part_defs canvas_defs Let_def; (intro exI allI, rule refl))

lemma strokesOnce_parts:
  "sizeOk size' \<Longrightarrow> f \<in> set (getHangmanParts size') \<Longrightarrow> strokesOnce f"
  by (cases size')
     (auto simp: sizeOk_def intro: strokesOnce_parts_undefined strokesOnce_parts_number)

lemma painted_Nil: "painted [] = []"
  by (simp add: painted_def freshCanvas_def)

lemma forEach_draw_strokesOnce:
  "\<forall>f \<in> set fs. strokesOnce f \<Longrightarrow>
   \<exists>c'. forEach_draw c fs = Inr c' \<and> strokes c' = strokes c @ painted fs"
proof (induction fs arbitrary: c)
  case Nil
  then show ?case by (simp add: painted_Nil)
next
  case (Cons f fs)
  from Cons.prems have "strokesOnce f" by simp
  then obtain lw p where
    dr: "\<And>c. draw c f = Inr (c\<lparr>lineWidth := lw, path := p, strokes := strokes c @ [(lw, p)]\<rparr>)"
    unfolding strokesOnce_def by blast
  from Cons.prems have rest: "\<forall>g \<in> set fs. strokesOnce g" by simp
  let ?c1 = "c\<lparr>lineWidth := lw, path := p, strokes := strokes c @ [(lw, p)]\<rparr>"
  let ?d1 = "freshCanvas\<lparr>lineWidth := lw, path := p,
               strokes := strokes freshCanvas @ [(lw, p)]\<rparr>"
  from Cons.IH [OF rest, of ?c1] obtain c' where
    c': "forEach_draw ?c1 fs = Inr c'" "strokes c' = strokes ?c1 @ painted fs" by blast
  from Cons.IH [OF rest, of ?d1] obtain d' where
    d': "forEach_draw ?d1 fs = Inr d'" "strokes d' = strokes ?d1 @ painted fs" by blast
  have "painted (f # fs) = (lw, p) # painted fs"
    using d' by (simp add: painted_def dr freshCanvas_def)
  then show ?case using c' by (simp add: dr)
qed

lemma painted_Cons:
  assumes "strokesOnce f" and "\<forall>g \<in> set fs. strokesOnce g"
  shows "painted (f # fs) = painted [f] @ painted fs"
proof -
  from assms(1) obtain lw p where
    dr: "\<And>c. draw c f = Inr (c\<lparr>lineWidth := lw, path := p, strokes := strokes c @ [(lw, p)]\<rparr>)"
    unfolding strokesOnce_def by blast
  let ?d1 = "freshCanvas\<lparr>lineWidth := lw, path := p,
               strokes := strokes freshCanvas @ [(lw, p)]\<rparr>"
  from forEach_draw_strokesOnce [OF assms(2), of ?d1] obtain d' where
    d': "forEach_draw ?d1 fs = Inr d'" "strokes d' = strokes ?d1 @ painted fs" by blast
  have one: "painted [f] = [(lw, p)]"
    by (simp add: painted_def dr freshCanvas_def)
  have "painted (f # fs) = (lw, p) # painted fs"
    using d' by (simp add: painted_def dr freshCanvas_def)
  with one show ?thesis by simp
qed

lemma painted_append:
  "\<forall>f \<in> set fs. strokesOnce f \<Longrightarrow> \<forall>g \<in> set gs. strokesOnce g \<Longrightarrow>
   painted (fs @ gs) = painted fs @ painted gs"
proof (induction fs)
  case Nil
  then show ?case by (simp add: painted_Nil)
next
  case (Cons f fs)
  have "painted ((f # fs) @ gs) = painted [f] @ painted (fs @ gs)"
    using Cons.prems painted_Cons [of f "fs @ gs"] by auto
  also have "\<dots> = painted [f] @ painted fs @ painted gs"
    using Cons by simp
  also have "\<dots> = painted (f # fs) @ painted gs"
    using Cons.prems painted_Cons [of f fs] by simp
  finally show ?case .
qed

lemma length_painted:
  "\<forall>f \<in> set fs. strokesOnce f \<Longrightarrow> length (painted fs) = length fs"
proof (induction fs)
  case Nil
  then show ?case by (simp add: painted_Nil)
next
  case (Cons f fs)
  from Cons.prems obtain lw p where
    dr: "\<And>c. draw c f = Inr (c\<lparr>lineWidth := lw, path := p, strokes := strokes c @ [(lw, p)]\<rparr>)"
    unfolding strokesOnce_def by auto
  have "painted [f] = [(lw, p)]"
    by (simp add: painted_def dr freshCanvas_def)
  then show ?case
    using Cons painted_Cons [of f fs] by simp
qed

lemma painted_take_drop:
  assumes "\<forall>f \<in> set fs. strokesOnce f" and "d \<le> n"
  shows "painted (take n fs) = painted (take d fs) @ painted (take (n - d) (drop d fs))"
proof -
  have "take n fs = take d fs @ take (n - d) (drop d fs)"
    using assms(2) by (metis le_add_diff_inverse take_add)
  moreover have "\<forall>f \<in> set (take d fs). strokesOnce f"
    using assms(1) by (meson in_set_takeD)
  moreover have "\<forall>f \<in> set (take (n - d) (drop d fs)). strokesOnce f"
    using assms(1) by (meson in_set_takeD in_set_dropD)
  ultimately show ?thesis by (simp add: painted_append)
qed

subsection \<open>The draw effect\<close>

lemma forwardDraw_strokesOnce:
  assumes "\<forall>f \<in> set (hangmanParts h). strokesOnce f"
  shows "\<exists>c'. forEach_draw (canvas h) (slice (hangmanParts h) (drawnPartsRef h) n) = Inr c' \<and>
           strokes c' = strokes (canvas h) @ painted (slice (hangmanParts h) (drawnPartsRef h) n) \<and>
           forwardDraw n h =
             Inr (h\<lparr>previousIncorrectGuessCountRef := n, canvas := c', drawnPartsRef := n\<rparr>)"
proof -
  have "\<forall>f \<in> set (slice (hangmanParts h) (drawnPartsRef h) n). strokesOnce f"
    by (meson assms set_slice subsetD)
  from forEach_draw_strokesOnce [OF this, of "canvas h"] obtain c' where
    a: "forEach_draw (canvas h) (slice (hangmanParts h) (drawnPartsRef h) n) = Inr c'" and
    b: "strokes c' = strokes (canvas h) @ painted (slice (hangmanParts h) (drawnPartsRef h) n)"
    by blast
  have "forwardDraw n h =
          Inr (h\<lparr>previousIncorrectGuessCountRef := n, canvas := c', drawnPartsRef := n\<rparr>)"
    using a by (simp add: forwardDraw_def Let_def)
  with a b show ?thesis by blast
qed

lemma rendered_committed: "rendered h \<Longrightarrow> committed h"
  by (simp add: rendered_def)

lemma committed_parts:
  "committed h \<Longrightarrow> \<forall>f \<in> set (hangmanParts h). strokesOnce f"
  by (auto simp: committed_def intro: strokesOnce_parts)

lemma rendered_parts:
  "rendered h \<Longrightarrow> \<forall>f \<in> set (hangmanParts h). strokesOnce f"
  by (blast dest: rendered_committed committed_parts)

lemma update_forward:
  assumes r: "committed h" and d0: "0 \<le> drawnPartsRef h"
    and le: "previousIncorrectGuessCountRef h \<le> n"
  shows "\<exists>c'. forEach_draw (canvas h)
                 (take (nat (n - drawnPartsRef h)) (drop (nat (drawnPartsRef h)) (hangmanParts h)))
               = Inr c' \<and>
           strokes c' = strokes (canvas h) @
             painted (take (nat (n - drawnPartsRef h)) (drop (nat (drawnPartsRef h)) (hangmanParts h))) \<and>
           update n h =
             Inr (h\<lparr>incorrectGuessCount := n, previousIncorrectGuessCountRef := n,
                    canvas := c', drawnPartsRef := n\<rparr>)"
proof -
  let ?h = "h\<lparr>incorrectGuessCount := n\<rparr>"
  let ?fs = "take (nat (n - drawnPartsRef h)) (drop (nat (drawnPartsRef h)) (hangmanParts h))"
  from r have pd: "previousIncorrectGuessCountRef h = drawnPartsRef h"
    and gd: "incorrectGuessCount h = drawnPartsRef h"
    by (simp_all add: committed_def)
  from le pd d0 have n0: "0 \<le> n" by simp
  have sl: "slice (hangmanParts h) (drawnPartsRef h) n = ?fs"
    using d0 n0 by (rule slice_nonneg)
  have parts: "\<forall>f \<in> set (hangmanParts ?h). strokesOnce f"
    using committed_parts [OF r] by simp
  from forwardDraw_strokesOnce [OF parts, of n] obtain c' where
    a: "forEach_draw (canvas h) ?fs = Inr c'" and
    b: "strokes c' = strokes (canvas h) @ painted ?fs" and
    c: "forwardDraw n ?h =
         Inr (?h\<lparr>previousIncorrectGuessCountRef := n, canvas := c', drawnPartsRef := n\<rparr>)"
    unfolding sl [symmetric] by auto
  have "update n h =
          Inr (h\<lparr>incorrectGuessCount := n, previousIncorrectGuessCountRef := n,
                 canvas := c', drawnPartsRef := n\<rparr>)"
  proof (cases "n = incorrectGuessCount h")
    case True
    with gd have nd: "drawnPartsRef h = n" by simp
    from a nd have "c' = canvas h" by simp
    then show ?thesis
      using nd pd gd by (simp add: update_def render_def Let_def)
  next
    case False
    have "update n h = forwardDraw n ?h"
      using False le by (simp add: update_def render_def Let_def drawEffect_def)
    with c show ?thesis by simp
  qed
  with a b show ?thesis by blast
qed

lemma update_backward:
  assumes r: "committed h" and lt: "n < previousIncorrectGuessCountRef h"
  shows "update n h = forwardDraw n (resetCanvas (h\<lparr>incorrectGuessCount := n\<rparr>))"
    and "\<exists>c'. forEach_draw (clearCanvas (canvas h)) (slice (hangmanParts h) 0 n) = Inr c' \<and>
           strokes c' = painted (slice (hangmanParts h) 0 n) \<and>
           update n h =
             Inr (h\<lparr>incorrectGuessCount := n, previousIncorrectGuessCountRef := n,
                    canvas := c', drawnPartsRef := n\<rparr>)"
proof -
  let ?h = "resetCanvas (h\<lparr>incorrectGuessCount := n\<rparr>)"
  from r have pd: "previousIncorrectGuessCountRef h = drawnPartsRef h"
    and gd: "incorrectGuessCount h = drawnPartsRef h"
    by (simp_all add: committed_def)
  from lt pd gd have ne: "n \<noteq> incorrectGuessCount h" by simp
  show eq: "update n h = forwardDraw n ?h"
    using ne lt by (simp add: update_def render_def Let_def drawEffect_def)
  have parts: "\<forall>f \<in> set (hangmanParts ?h). strokesOnce f"
    using committed_parts [OF r] by (simp add: resetCanvas_def)
  have hp: "hangmanParts ?h = hangmanParts h" and dr: "drawnPartsRef ?h = 0"
    and cv: "canvas ?h = clearCanvas (canvas h)"
    by (simp_all add: resetCanvas_def)
  from forwardDraw_strokesOnce [OF parts, of n] obtain c' where
    a: "forEach_draw (clearCanvas (canvas h)) (slice (hangmanParts h) 0 n) = Inr c'" and
    b: "strokes c' = strokes (clearCanvas (canvas h)) @ painted (slice (hangmanParts h) 0 n)" and
    c: "forwardDraw n ?h =
         Inr (?h\<lparr>previousIncorrectGuessCountRef := n, canvas := c', drawnPartsRef := n\<rparr>)"
    unfolding hp dr cv by blast
  from b have b': "strokes c' = painted (slice (hangmanParts h) 0 n)"
    by (simp add: clearCanvas_def)
  have "update n h =
          Inr (h\<lparr>incorrectGuessCount := n, previousIncorrectGuessCountRef := n,
                 canvas := c', drawnPartsRef := n\<rparr>)"
    unfolding eq c by (simp add: resetCanvas_def)
  with a b' show "\<exists>c'. forEach_draw (clearCanvas (canvas h)) (slice (hangmanParts h) 0 n) = Inr c' \<and>
           strokes c' = painted (slice (hangmanParts h) 0 n) \<and>
           update n h =
             Inr (h\<lparr>incorrectGuessCount := n, previousIncorrectGuessCountRef := n,
                    canvas := c', drawnPartsRef := n\<rparr>)"
    by blast
qed

subsection \<open>Renders and the state between them\<close>

lemma render_new_size:
  assumes ok: "sizeOk size'" and ne: "size' \<noteq> sizeState h"
  shows "render size' n h =
           forwardDraw n (resetCanvas (h\<lparr>sizeState := size', hangmanParts := getHangmanParts size',
             partsInstance := Suc (partsInstance h), canvas := freshCanvas,
             incorrectGuessCount := n\<rparr>))"
    and "\<exists>c'. forEach_draw freshCanvas (slice (getHangmanParts size') 0 n) = Inr c' \<and>
           strokes c' = painted (slice (getHangmanParts size') 0 n) \<and>
           render size' n h =
             Inr (h\<lparr>sizeState := size', hangmanParts := getHangmanParts size',
                    partsInstance := Suc (partsInstance h), incorrectGuessCount := n,
                    previousIncorrectGuessCountRef := n, canvas := c', drawnPartsRef := n\<rparr>)"
proof -
  let ?h = "resetCanvas (h\<lparr>sizeState := size', hangmanParts := getHangmanParts size',
             partsInstance := Suc (partsInstance h), canvas := freshCanvas,
             incorrectGuessCount := n\<rparr>)"
  have rr: "resetCanvas ?h = ?h"
    by (simp add: resetCanvas_def clearCanvas_def)
  have "render size' n h = drawEffect n ?h"
    using ne by (simp add: render_def Let_def)
  then show eq: "render size' n h = forwardDraw n ?h"
    using rr by (simp add: drawEffect_def)
  have hp: "hangmanParts ?h = getHangmanParts size'" and dr: "drawnPartsRef ?h = 0"
    and cv: "canvas ?h = freshCanvas"
    by (simp_all add: resetCanvas_def clearCanvas_def freshCanvas_def)
  have parts: "\<forall>f \<in> set (hangmanParts ?h). strokesOnce f"
    unfolding hp using ok by (blast intro: strokesOnce_parts)
  from forwardDraw_strokesOnce [OF parts, of n] obtain c' where
    a: "forEach_draw freshCanvas (slice (getHangmanParts size') 0 n) = Inr c'" and
    b: "strokes c' = strokes freshCanvas @ painted (slice (getHangmanParts size') 0 n)" and
    c: "forwardDraw n ?h =
         Inr (?h\<lparr>previousIncorrectGuessCountRef := n, canvas := c', drawnPartsRef := n\<rparr>)"
    unfolding hp dr cv by blast
  from b have b': "strokes c' = painted (slice (getHangmanParts size') 0 n)"
    by (simp add: freshCanvas_def)
  have "render size' n h =
          Inr (h\<lparr>sizeState := size', hangmanParts := getHangmanParts size',
                 partsInstance := Suc (partsInstance h), incorrectGuessCount := n,
                 previousIncorrectGuessCountRef := n, canvas := c', drawnPartsRef := n\<rparr>)"
    unfolding eq c by (simp add: resetCanvas_def)
  with a b' show "\<exists>c'. forEach_draw freshCanvas (slice (getHangmanParts size') 0 n) = Inr c' \<and>
           strokes c' = painted (slice (getHangmanParts size') 0 n) \<and>
           render size' n h =
             Inr (h\<lparr>sizeState := size', hangmanParts := getHangmanParts size',
                    partsInstance := Suc (partsInstance h), incorrectGuessCount := n,
                    previousIncorrectGuessCountRef := n, canvas := c', drawnPartsRef := n\<rparr>)"
    by blast
qed

lemma mount_result:
  "\<exists>c'. strokes c' = painted (slice (getHangmanParts (Some (of_nat w))) 0 n) \<and>
     mount n w =
       Inr \<lparr>incorrectGuessCount = n, sizeState = Some (of_nat w),
            hangmanParts = getHangmanParts (Some (of_nat w)), partsInstance = 2,
            drawnPartsRef = n, previousIncorrectGuessCountRef = n,
            canvas = c', containerRef = True, listening = True, pending = False\<rparr>"
proof -
  let ?h2 = "resetCanvas \<lparr>incorrectGuessCount = n, sizeState = None,
                hangmanParts = getHangmanParts None, partsInstance = 1,
                drawnPartsRef = 0, previousIncorrectGuessCountRef = n,
                canvas = freshCanvas, containerRef = True,
                listening = True, pending = False\<rparr>"
  have parts: "\<forall>f \<in> set (hangmanParts ?h2). strokesOnce f"
    by (simp add: resetCanvas_def strokesOnce_parts_undefined)
  from forwardDraw_strokesOnce [OF parts, of n] obtain c1 where
    c: "forwardDraw n ?h2 =
         Inr (?h2\<lparr>previousIncorrectGuessCountRef := n, canvas := c1, drawnPartsRef := n\<rparr>)"
    by blast
  let ?h3 = "?h2\<lparr>previousIncorrectGuessCountRef := n, canvas := c1, drawnPartsRef := n\<rparr>"
  have d: "drawEffect n ?h2 = Inr ?h3"
    using c by (simp add: drawEffect_def resetCanvas_def)
  have m: "mount n w = render (Some (of_nat w)) n ?h3"
    using d by (simp add: mount_def Let_def)
  have ok: "sizeOk (Some (of_nat w))" by (simp add: sizeOk_def)
  have ne: "Some (of_nat w) \<noteq> sizeState ?h3" by (simp add: resetCanvas_def)
  from render_new_size(2) [OF ok ne, of n] obtain c' where
    b: "strokes c' = painted (slice (getHangmanParts (Some (of_nat w))) 0 n)" and
    r: "render (Some (of_nat w)) n ?h3 =
             Inr (?h3\<lparr>sizeState := Some (of_nat w),
                    hangmanParts := getHangmanParts (Some (of_nat w)),
                    partsInstance := Suc (partsInstance ?h3), incorrectGuessCount := n,
                    previousIncorrectGuessCountRef := n, canvas := c', drawnPartsRef := n\<rparr>)"
    by blast
  have "mount n w =
       Inr \<lparr>incorrectGuessCount = n, sizeState = Some (of_nat w),
            hangmanParts = getHangmanParts (Some (of_nat w)), partsInstance = 2,
            drawnPartsRef = n, previousIncorrectGuessCountRef = n,
            canvas = c', containerRef = True, listening = True, pending = False\<rparr>"
    unfolding m r by (simp add: resetCanvas_def)
  with b show ?thesis by blast
qed

lemma update_rendered:
  assumes r: "rendered h" and n0: "0 \<le> n"
  shows "\<exists>h'. update n h = Inr h' \<and> rendered h' \<and> drawnPartsRef h' = n \<and>
           sizeState h' = sizeState h \<and> hangmanParts h' = hangmanParts h \<and>
           partsInstance h' = partsInstance h \<and>
           strokes (canvas h') = painted (take (nat n) (hangmanParts h))"
proof -
  from r have d0: "0 \<le> drawnPartsRef h" and pd: "previousIncorrectGuessCountRef h = drawnPartsRef h"
    and ok: "sizeOk (sizeState h)" and hp: "hangmanParts h = getHangmanParts (sizeState h)"
    and st: "strokes (canvas h) = painted (take (nat (drawnPartsRef h)) (hangmanParts h))"
    by (simp_all add: rendered_def committed_def)
  have "\<exists>c'. strokes c' = painted (take (nat n) (hangmanParts h)) \<and>
          update n h =
             Inr (h\<lparr>incorrectGuessCount := n, previousIncorrectGuessCountRef := n,
                    canvas := c', drawnPartsRef := n\<rparr>)"
  proof (cases "previousIncorrectGuessCountRef h \<le> n")
    case True
    from update_forward [OF rendered_committed [OF r] d0 True] obtain c' where
      b: "strokes c' = strokes (canvas h) @
             painted (take (nat (n - drawnPartsRef h)) (drop (nat (drawnPartsRef h)) (hangmanParts h)))" and
      u: "update n h =
             Inr (h\<lparr>incorrectGuessCount := n, previousIncorrectGuessCountRef := n,
                    canvas := c', drawnPartsRef := n\<rparr>)"
      by blast
    have le: "nat (drawnPartsRef h) \<le> nat n" using True pd by simp
    have df: "nat n - nat (drawnPartsRef h) = nat (n - drawnPartsRef h)"
      using d0 by simp
    from painted_take_drop [OF rendered_parts [OF r] le]
    have "strokes c' = painted (take (nat n) (hangmanParts h))"
      unfolding b st df by simp
    with u show ?thesis by blast
  next
    case False
    then have lt: "n < previousIncorrectGuessCountRef h" by simp
    from update_backward(2) [OF rendered_committed [OF r] lt] obtain c' where
      b: "strokes c' = painted (slice (hangmanParts h) 0 n)" and
      u: "update n h =
             Inr (h\<lparr>incorrectGuessCount := n, previousIncorrectGuessCountRef := n,
                    canvas := c', drawnPartsRef := n\<rparr>)"
      by blast
    from b n0 have "strokes c' = painted (take (nat n) (hangmanParts h))"
      by (simp add: slice_from_zero)
    with u show ?thesis by blast
  qed
  then obtain c' where
      b: "strokes c' = painted (take (nat n) (hangmanParts h))" and
      u: "update n h =
             Inr (h\<lparr>incorrectGuessCount := n, previousIncorrectGuessCountRef := n,
                    canvas := c', drawnPartsRef := n\<rparr>)"
    by blast
  let ?h' = "h\<lparr>incorrectGuessCount := n, previousIncorrectGuessCountRef := n,
                    canvas := c', drawnPartsRef := n\<rparr>"
  have "rendered ?h'"
    using ok hp n0 b by (simp add: rendered_def committed_def)
  moreover have "drawnPartsRef ?h' = n" "sizeState ?h' = sizeState h"
    "hangmanParts ?h' = hangmanParts h" "partsInstance ?h' = partsInstance h"
    "strokes (canvas ?h') = painted (take (nat n) (hangmanParts h))"
    using b by simp_all
  ultimately show ?thesis using u by blast
qed

lemma mount_rendered:
  assumes n0: "0 \<le> n"
  shows "\<exists>h. mount n w = Inr h \<and> rendered h \<and> drawnPartsRef h = n \<and>
           sizeState h = Some (of_nat w) \<and> partsInstance h = 2 \<and>
           containerRef h \<and> listening h \<and> \<not> pending h \<and>
           strokes (canvas h) = painted (take (nat n) (getHangmanParts (Some (of_nat w))))"
proof -
  from mount_result [of w n] obtain c' where
    b: "strokes c' = painted (slice (getHangmanParts (Some (of_nat w))) 0 n)" and
    m: "mount n w =
       Inr \<lparr>incorrectGuessCount = n, sizeState = Some (of_nat w),
            hangmanParts = getHangmanParts (Some (of_nat w)), partsInstance = 2,
            drawnPartsRef = n, previousIncorrectGuessCountRef = n,
            canvas = c', containerRef = True, listening = True, pending = False\<rparr>"
    by blast
  from b n0 have b': "strokes c' = painted (take (nat n) (getHangmanParts (Some (of_nat w))))"
    by (simp add: slice_from_zero)
  show ?thesis
    unfolding m using b' n0 by (simp add: rendered_def committed_def sizeOk_def)
qed

lemmas geometry_defs = partPath_def freshCanvas_def part_defs canvas_defs Let_def

lemma length_getHangmanParts: "length (getHangmanParts size') = 10"
  by (simp add: getHangmanParts_def)

lemma rendered_length: "rendered h \<Longrightarrow> length (hangmanParts h) = 10"
  by (simp add: rendered_def committed_def length_getHangmanParts)

lemmas evaluate_painted = painted_def getHangmanParts_def geometry_defs

lemma updates_rendered:
  "rendered h \<Longrightarrow> list_all (\<lambda>n. 0 \<le> n) ns \<Longrightarrow>
   \<exists>h'. updates ns h = Inr h' \<and> rendered h' \<and> hangmanParts h' = hangmanParts h \<and>
     sizeState h' = sizeState h \<and> partsInstance h' = partsInstance h \<and>
     drawnPartsRef h' = (if ns = [] then drawnPartsRef h else last ns)"
proof (induction ns arbitrary: h)
  case Nil
  then show ?case by simp
next
  case (Cons n ns)
  from Cons.prems have n0: "0 \<le> n" and rest: "list_all (\<lambda>n. 0 \<le> n) ns" by simp_all
  from update_rendered [OF Cons.prems(1) n0] obtain h1 where
    u: "update n h = Inr h1" and r1: "rendered h1" and d1: "drawnPartsRef h1 = n" and
    s1: "sizeState h1 = sizeState h" and p1: "hangmanParts h1 = hangmanParts h" and
    i1: "partsInstance h1 = partsInstance h"
    by blast
  from Cons.IH [OF r1 rest] obtain h' where
    "updates ns h1 = Inr h'" "rendered h'" "hangmanParts h' = hangmanParts h1"
    "sizeState h' = sizeState h1" "partsInstance h' = partsInstance h1"
    "drawnPartsRef h' = (if ns = [] then drawnPartsRef h1 else last ns)"
    by blast
  with u d1 s1 p1 i1 show ?case by simp
qed

lemma rendered_strokes:
  "rendered h \<Longrightarrow> 10 \<le> drawnPartsRef h \<Longrightarrow> strokes (canvas h) = painted (hangmanParts h)"
  by (simp add: rendered_def committed_def length_getHangmanParts)

lemma update_same_count:
  "incorrectGuessCount h = n \<Longrightarrow> update n h = Inr h"
  by (simp add: update_def render_def Let_def)

lemma drawEffect_same_count:
  assumes "previousIncorrectGuessCountRef h = n" and "drawnPartsRef h = n"
  shows "drawEffect n h = Inr h"
  using assms by (simp add: drawEffect_def forwardDraw_def Let_def slice_same)

lemma resize_rendered:
  assumes r: "rendered h" and c: "containerRef h"
  shows "\<exists>h'. resizeCanvas w h = Inr h' \<and> rendered h' \<and>
           drawnPartsRef h' = drawnPartsRef h \<and> sizeState h' = Some (of_nat w) \<and>
           strokes (canvas h') =
             painted (take (nat (drawnPartsRef h)) (getHangmanParts (Some (of_nat w))))"
proof (cases "Some (of_nat w) = sizeState h")
  case True
  from r have gd: "incorrectGuessCount h = drawnPartsRef h"
    and hp: "hangmanParts h = getHangmanParts (sizeState h)"
    and st: "strokes (canvas h) = painted (take (nat (drawnPartsRef h)) (hangmanParts h))"
    by (simp_all add: rendered_def committed_def)
  have "resizeCanvas w h = update (incorrectGuessCount h) h"
    using c True by (simp add: resizeCanvas_def update_def)
  then have "resizeCanvas w h = Inr h"
    by (simp add: update_same_count)
  with r st hp True show ?thesis by simp
next
  case False
  let ?n = "incorrectGuessCount h"
  from r have gd: "?n = drawnPartsRef h" and d0: "0 \<le> drawnPartsRef h"
    by (simp_all add: rendered_def committed_def)
  have ok: "sizeOk (Some (of_nat w))" by (simp add: sizeOk_def)
  from render_new_size(2) [OF ok False, of ?n] obtain c' where
    b: "strokes c' = painted (slice (getHangmanParts (Some (of_nat w))) 0 ?n)" and
    u: "render (Some (of_nat w)) ?n h =
          Inr (h\<lparr>sizeState := Some (of_nat w),
                 hangmanParts := getHangmanParts (Some (of_nat w)),
                 partsInstance := Suc (partsInstance h), incorrectGuessCount := ?n,
                 previousIncorrectGuessCountRef := ?n, canvas := c', drawnPartsRef := ?n\<rparr>)"
    by blast
  from b gd d0 have b': "strokes c' =
      painted (take (nat (drawnPartsRef h)) (getHangmanParts (Some (of_nat w))))"
    by (simp add: slice_from_zero)
  show ?thesis
    using c u b' gd d0 by (simp add: resizeCanvas_def rendered_def committed_def sizeOk_def)
qed

lemma update_committed:
  assumes c: "committed h"
  shows "\<exists>c'. update m h =
           Inr (h\<lparr>incorrectGuessCount := m, previousIncorrectGuessCountRef := m,
                  canvas := c', drawnPartsRef := m\<rparr>)"
proof -
  from c have pd: "previousIncorrectGuessCountRef h = drawnPartsRef h"
    and gd: "incorrectGuessCount h = drawnPartsRef h"
    by (simp_all add: committed_def)
  consider "m = incorrectGuessCount h" | "m \<noteq> incorrectGuessCount h"
      "previousIncorrectGuessCountRef h \<le> m" | "m < previousIncorrectGuessCountRef h"
    by linarith
  then show ?thesis
  proof cases
    case 1
    have "h\<lparr>incorrectGuessCount := m, previousIncorrectGuessCountRef := m,
            canvas := canvas h, drawnPartsRef := m\<rparr> = h"
      using 1 pd gd by simp
    moreover have "update m h = Inr h"
      using 1 by (simp add: update_same_count)
    ultimately show ?thesis by metis
  next
    case 2
    let ?h = "h\<lparr>incorrectGuessCount := m\<rparr>"
    have parts: "\<forall>f \<in> set (hangmanParts ?h). strokesOnce f"
      using committed_parts [OF c] by simp
    from forwardDraw_strokesOnce [OF parts, of m] obtain c' where
      f: "forwardDraw m ?h =
         Inr (?h\<lparr>previousIncorrectGuessCountRef := m, canvas := c', drawnPartsRef := m\<rparr>)"
      by blast
    have "update m h = forwardDraw m ?h"
      using 2 by (simp add: update_def render_def Let_def drawEffect_def)
    with f have "update m h =
           Inr (h\<lparr>incorrectGuessCount := m, previousIncorrectGuessCountRef := m,
                  canvas := c', drawnPartsRef := m\<rparr>)"
      by simp
    then show ?thesis by blast
  next
    case 3
    from update_backward(2) [OF c 3] show ?thesis by blast
  qed
qed

lemma update_keeps_committed:
  assumes c: "committed h"
  shows "\<exists>h'. update m h = Inr h' \<and> committed h' \<and> drawnPartsRef h' = m \<and>
           sizeState h' = sizeState h \<and> hangmanParts h' = hangmanParts h \<and>
           partsInstance h' = partsInstance h"
proof -
  from update_committed [OF c, of m] obtain c' where
    u: "update m h =
           Inr (h\<lparr>incorrectGuessCount := m, previousIncorrectGuessCountRef := m,
                  canvas := c', drawnPartsRef := m\<rparr>)"
    by blast
  let ?h' = "h\<lparr>incorrectGuessCount := m, previousIncorrectGuessCountRef := m,
                  canvas := c', drawnPartsRef := m\<rparr>"
  from c have "committed ?h'" by (simp add: committed_def)
  with u show ?thesis by (intro exI [of _ ?h']) simp
qed

lemma mount_committed:
  "\<exists>h. mount n w = Inr h \<and> committed h \<and> drawnPartsRef h = n \<and>
     sizeState h = Some (of_nat w) \<and> partsInstance h = 2 \<and>
     containerRef h \<and> listening h \<and> \<not> pending h \<and>
     strokes (canvas h) = painted (slice (getHangmanParts (Some (of_nat w))) 0 n)"
proof -
  from mount_result [of w n] obtain c' where
    b: "strokes c' = painted (slice (getHangmanParts (Some (of_nat w))) 0 n)" and
    m: "mount n w =
       Inr \<lparr>incorrectGuessCount = n, sizeState = Some (of_nat w),
            hangmanParts = getHangmanParts (Some (of_nat w)), partsInstance = 2,
            drawnPartsRef = n, previousIncorrectGuessCountRef = n,
            canvas = c', containerRef = True, listening = True, pending = False\<rparr>"
    by blast
  show ?thesis
    unfolding m using b by (simp add: committed_def sizeOk_def)
qed

lemma resize_committed:
  assumes c: "committed h" and r: "containerRef h"
  shows "\<exists>h'. resizeCanvas w h = Inr h' \<and> committed h' \<and>
           drawnPartsRef h' = drawnPartsRef h \<and> sizeState h' = Some (of_nat w)"
proof (cases "Some (of_nat w) = sizeState h")
  case True
  have "resizeCanvas w h = update (incorrectGuessCount h) h"
    using r True by (simp add: resizeCanvas_def update_def)
  then have "resizeCanvas w h = Inr h"
    by (simp add: update_same_count)
  with c True show ?thesis by simp
next
  case False
  let ?n = "incorrectGuessCount h"
  from c have gd: "?n = drawnPartsRef h" by (simp add: committed_def)
  have ok: "sizeOk (Some (of_nat w))" by (simp add: sizeOk_def)
  from render_new_size(2) [OF ok False, of ?n] obtain c' where
    u: "render (Some (of_nat w)) ?n h =
          Inr (h\<lparr>sizeState := Some (of_nat w),
                 hangmanParts := getHangmanParts (Some (of_nat w)),
                 partsInstance := Suc (partsInstance h), incorrectGuessCount := ?n,
                 previousIncorrectGuessCountRef := ?n, canvas := c', drawnPartsRef := ?n\<rparr>)"
    by blast
  show ?thesis
    using r u gd by (simp add: resizeCanvas_def committed_def sizeOk_def)
qed

lemma take_min_ten:
  "length xs = 10 \<Longrightarrow> take (nat (min d 10)) xs = take (nat d) xs"
  by (cases "d \<le> 10") (simp_all add: min_def)

lemma painted_take_parts_length:
  assumes "sizeOk size'"
  shows "length (painted (take k (getHangmanParts size'))) = min k 10"
proof -
  have "\<forall>f \<in> set (take k (getHangmanParts size')). strokesOnce f"
    using assms by (meson in_set_takeD strokesOnce_parts)
  from length_painted [OF this] show ?thesis
    by (simp add: length_getHangmanParts min.commute)
qed

section \<open>The claims\<close>

text \<open>
  C1. For every size, \<open>getHangmanParts\<close> returns exactly ten drawing functions, in the
  fixed order platform, post, pole, rope, head, body, left arm, right arm, left leg,
  right leg; it is a function of the size alone. For a size \<open>s \<ge> 0\<close>, drawn in this
  order on a cleared canvas they leave ten marks: the base line, the upright and the
  beam of the gallows in line width 10, then rope, head, body, arms and legs in line
  width 2.
\<close>

theorem getHangmanParts_ten_in_order:
  "length (getHangmanParts size') = 10 \<and>
   getHangmanParts size' =
     [platform size', post size', pole size', rope size', head size', body size',
      leftArm size', rightArm size', leftLeg size', rightLeg size'] \<and>
   (0 \<le> s \<longrightarrow>
      painted (getHangmanParts (Some s)) =
        [(10, [MoveTo 0 s, LineTo s s]), (10, [MoveTo 0 0, LineTo 0 s]),
         (10, [MoveTo 0 0, LineTo (s / 2) 0]), (2, [MoveTo (s / 2) 0, LineTo (s / 2) (s / 10)]),
         (2, [Arc (s / 2) (s / 10 + s / 16) (s / 16) 0 2 True]),
         (2, [MoveTo (s / 2) (s / 10 + s / 8), LineTo (s / 2) (s / 2)]),
         (2, [MoveTo (s / 2) (s / 3), LineTo (s / 2 - s / 6) (s / 3)]),
         (2, [MoveTo (s / 2) (s / 3), LineTo (s / 2 + s / 6) (s / 3)]),
         (2, [MoveTo (s / 2) (s / 2), LineTo (s / 2 - s / 6) (s / 2 + s / 6)]),
         (2, [MoveTo (s / 2) (s / 2), LineTo (s / 2 + s / 6) (s / 2 + s / 6)])])"
  by (simp add: evaluate_painted)

text \<open>Witness for C1 at size 350.\<close>

theorem getHangmanParts_ten_in_order_witness:
  "(0 :: rat) \<le> 350 \<and> length (getHangmanParts (Some 350)) = 10 \<and>
   painted (getHangmanParts (Some 350)) =
       [(10, [MoveTo 0 350, LineTo 350 350]), (10, [MoveTo 0 0, LineTo 0 350]),
        (10, [MoveTo 0 0, LineTo 175 0]), (2, [MoveTo 175 0, LineTo 175 35]),
        (2, [Arc 175 (455 / 8) (175 / 8) 0 2 True]),
        (2, [MoveTo 175 (315 / 4), LineTo 175 175]),
        (2, [MoveTo 175 (350 / 3), LineTo (350 / 3) (350 / 3)]),
        (2, [MoveTo 175 (350 / 3), LineTo (700 / 3) (350 / 3)]),
        (2, [MoveTo 175 175, LineTo (350 / 3) (700 / 3)]),
        (2, [MoveTo 175 175, LineTo (700 / 3) (700 / 3)])]"
proof -
  from getHangmanParts_ten_in_order [of "Some 350" 350, THEN conjunct1]
  have l: "length (getHangmanParts (Some 350)) = 10" .
  from getHangmanParts_ten_in_order [of "Some 350" 350, THEN conjunct2, THEN conjunct2]
  have "painted (getHangmanParts (Some 350)) =
       [(10, [MoveTo 0 350, LineTo 350 350]), (10, [MoveTo 0 0, LineTo 0 350]),
        (10, [MoveTo 0 0, LineTo 175 0]), (2, [MoveTo 175 0, LineTo 175 35]),
        (2, [Arc 175 (455 / 8) (175 / 8) 0 2 True]),
        (2, [MoveTo 175 (315 / 4), LineTo 175 175]),
        (2, [MoveTo 175 (350 / 3), LineTo (350 / 3) (350 / 3)]),
        (2, [MoveTo 175 (350 / 3), LineTo (700 / 3) (350 / 3)]),
        (2, [MoveTo 175 175, LineTo (350 / 3) (700 / 3)]),
        (2, [MoveTo 175 175, LineTo (700 / 3) (700 / 3)])]"
    by simp
  with l show ?thesis by simp
qed

text \<open>
  C2. A render at unchanged size whose guess count \<open>n\<close> is not below the previous one
  paints exactly the parts at the indices from the previous drawn count up to \<open>n\<close>
  (those the array has), each through \<open>draw\<close>, which sets the line width to 2 before
  it calls the part. Whatever marks the bitmap holds before the render, they stay as
  they are, in place and in order, and the render adds one mark for each part of that
  range after them and nothing else: the canvas after the render is the canvas before
  it with just these parts drawn on it. Nothing is cleared and no part below the
  previous drawn count is run. Where the bitmap showed the first parts up to the
  previous drawn count, it shows the first \<open>n\<close> parts afterwards, each once. The counts
  are not negative.
\<close>

theorem forward_draw_new_parts:
  assumes "committed h" and "0 \<le> drawnPartsRef h"
    and "previousIncorrectGuessCountRef h \<le> n"
  shows "\<exists>h'. update n h = Inr h' \<and>
           forEach_draw (canvas h)
             (take (nat (n - drawnPartsRef h)) (drop (nat (drawnPartsRef h)) (hangmanParts h)))
             = Inr (canvas h') \<and>
           strokes (canvas h') = strokes (canvas h) @
             painted (take (nat (n - drawnPartsRef h)) (drop (nat (drawnPartsRef h)) (hangmanParts h))) \<and>
           length (strokes (canvas h')) = length (strokes (canvas h)) +
             length (take (nat (n - drawnPartsRef h)) (drop (nat (drawnPartsRef h)) (hangmanParts h))) \<and>
           drawnPartsRef h' = n \<and>
           (rendered h \<longrightarrow> strokes (canvas h') = painted (take (nat n) (hangmanParts h))) \<and>
           (\<forall>c f. draw c f = f (c\<lparr>lineWidth := 2\<rparr>))"
proof -
  let ?fs = "take (nat (n - drawnPartsRef h)) (drop (nat (drawnPartsRef h)) (hangmanParts h))"
  from assms(1) have pd: "previousIncorrectGuessCountRef h = drawnPartsRef h"
    by (simp add: committed_def)
  from assms(2,3) pd have n0: "0 \<le> n" by simp
  from update_forward [OF assms] obtain c' where
    a: "forEach_draw (canvas h) ?fs = Inr c'" and
    b: "strokes c' = strokes (canvas h) @ painted ?fs" and
    u: "update n h =
          Inr (h\<lparr>incorrectGuessCount := n, previousIncorrectGuessCountRef := n,
                 canvas := c', drawnPartsRef := n\<rparr>)"
    by blast
  let ?h' = "h\<lparr>incorrectGuessCount := n, previousIncorrectGuessCountRef := n,
                 canvas := c', drawnPartsRef := n\<rparr>"
  have "\<forall>f \<in> set ?fs. strokesOnce f"
    using committed_parts [OF assms(1)] by (meson in_set_takeD in_set_dropD)
  from length_painted [OF this] b
  have l: "length (strokes c') = length (strokes (canvas h)) + length ?fs"
    by simp
  have t: "strokes c' = painted (take (nat n) (hangmanParts h))" if r: "rendered h"
    using update_rendered [OF r n0] u by auto
  have "canvas ?h' = c'" "drawnPartsRef ?h' = n" by simp_all
  with a b l t u show ?thesis
    unfolding draw_def by (intro exI [of _ ?h']) simp
qed

text \<open>
  Witness for C2. Mounted with three wrong guesses in a 350 pixel container, then
  rendered with seven: rope, head, body and left arm are added to the gallows. And
  the state after a mount with two wrong guesses whose bitmap holds one mark of
  another origin instead: a render with three keeps that mark and adds the pole.
\<close>

theorem forward_draw_new_parts_witness:
  "\<exists>h h' k k'. mount 3 350 = Inr h \<and> committed h \<and> 0 \<le> drawnPartsRef h \<and>
     previousIncorrectGuessCountRef h \<le> 7 \<and>
     update 7 h = Inr h' \<and>
     strokes (canvas h) =
       [(10, [MoveTo 0 350, LineTo 350 350]), (10, [MoveTo 0 0, LineTo 0 350]),
        (10, [MoveTo 0 0, LineTo 175 0])] \<and>
     strokes (canvas h') = strokes (canvas h) @
       [(2, [MoveTo 175 0, LineTo 175 35]), (2, [Arc 175 (455 / 8) (175 / 8) 0 2 True]),
        (2, [MoveTo 175 (315 / 4), LineTo 175 175]),
        (2, [MoveTo 175 (350 / 3), LineTo (350 / 3) (350 / 3)])] \<and>
     mount 2 350 = Inr k \<and>
     committed (k\<lparr>canvas := canvas k\<lparr>strokes := [(1, [MoveTo 5 5, LineTo 6 6])]\<rparr>\<rparr>) \<and>
     update 3 (k\<lparr>canvas := canvas k\<lparr>strokes := [(1, [MoveTo 5 5, LineTo 6 6])]\<rparr>\<rparr>) = Inr k' \<and>
     strokes (canvas k') =
       [(1, [MoveTo 5 5, LineTo 6 6]), (10, [MoveTo 0 0, LineTo 175 0])]"
proof -
  from mount_rendered [of 3 350] obtain h where
    m: "mount 3 350 = Inr h" and r: "rendered h" and d: "drawnPartsRef h = 3" and
    s: "sizeState h = Some 350" and
    st: "strokes (canvas h) = painted (take (nat 3) (getHangmanParts (Some (of_nat 350))))"
    by auto
  from r have c: "committed h" by (rule rendered_committed)
  from d have d0: "0 \<le> drawnPartsRef h" by simp
  from c d s have p: "previousIncorrectGuessCountRef h \<le> 7"
    and hp: "hangmanParts h = getHangmanParts (Some 350)"
    by (simp_all add: committed_def)
  from forward_draw_new_parts [OF c d0 p] obtain h' where
    u: "update 7 h = Inr h'" and
    b: "strokes (canvas h') = strokes (canvas h) @
          painted (take (nat (7 - drawnPartsRef h)) (drop (nat (drawnPartsRef h)) (hangmanParts h)))"
    by blast
  have e1: "painted (take (nat 3) (getHangmanParts (Some (of_nat 350)))) =
       [(10, [MoveTo 0 350, LineTo 350 350]), (10, [MoveTo 0 0, LineTo 0 350]),
        (10, [MoveTo 0 0, LineTo 175 0])]"
    by (simp add: evaluate_painted)
  have e2: "painted (take (nat (7 - 3)) (drop (nat 3) (getHangmanParts (Some 350)))) =
       [(2, [MoveTo 175 0, LineTo 175 35]), (2, [Arc 175 (455 / 8) (175 / 8) 0 2 True]),
        (2, [MoveTo 175 (315 / 4), LineTo 175 175]),
        (2, [MoveTo 175 (350 / 3), LineTo (350 / 3) (350 / 3)])]"
    by (simp add: evaluate_painted)
  from mount_committed [of 2 350] obtain k where
    mk: "mount 2 350 = Inr k" and ck: "committed k" and dk: "drawnPartsRef k = 2" and
    sk: "sizeState k = Some 350"
    by auto
  let ?k = "k\<lparr>canvas := canvas k\<lparr>strokes := [(1, [MoveTo 5 5, LineTo 6 6])]\<rparr>\<rparr>"
  from ck have cx: "committed ?k" by (simp add: committed_def)
  from dk have dx: "0 \<le> drawnPartsRef ?k" by simp
  from ck dk sk have px: "previousIncorrectGuessCountRef ?k \<le> 3"
    and hk: "hangmanParts ?k = getHangmanParts (Some 350)"
    by (simp_all add: committed_def)
  from forward_draw_new_parts [OF cx dx px] obtain k' where
    uk: "update 3 ?k = Inr k'" and
    bk: "strokes (canvas k') = strokes (canvas ?k) @
          painted (take (nat (3 - drawnPartsRef ?k)) (drop (nat (drawnPartsRef ?k)) (hangmanParts ?k)))"
    by blast
  have dk': "drawnPartsRef ?k = 2" using dk by simp
  have e3: "painted (take (nat (3 - 2)) (drop (nat 2) (getHangmanParts (Some 350)))) =
       [(10, [MoveTo 0 0, LineTo 175 0])]"
    by (simp add: evaluate_painted)
  from bk have sk': "strokes (canvas k') =
       [(1, [MoveTo 5 5, LineTo 6 6]), (10, [MoveTo 0 0, LineTo 175 0])]"
    unfolding dk' hk e3 by simp
  from b have sh': "strokes (canvas h') = strokes (canvas h) @
       [(2, [MoveTo 175 0, LineTo 175 35]), (2, [Arc 175 (455 / 8) (175 / 8) 0 2 True]),
        (2, [MoveTo 175 (315 / 4), LineTo 175 175]),
        (2, [MoveTo 175 (350 / 3), LineTo (350 / 3) (350 / 3)])]"
    unfolding d hp e2 .
  from st have sh: "strokes (canvas h) =
       [(10, [MoveTo 0 350, LineTo 350 350]), (10, [MoveTo 0 0, LineTo 0 350]),
        (10, [MoveTo 0 0, LineTo 175 0])]"
    unfolding e1 .
  from m c d0 p u sh sh' mk cx uk sk' show ?thesis
    by (intro exI [of _ h] exI [of _ h'] exI [of _ k] exI [of _ k']) simp
qed

text \<open>
  C3. A render at unchanged size whose guess count \<open>n\<close> is below the previous one is
  the forward draw run on the state \<open>resetCanvas\<close> leaves: the bitmap cleared and the
  drawn count 0. So the bitmap then shows what \<open>slice(0, n)\<close> selects and nothing
  older. In particular a render at 0 (as from 7) leaves the bitmap empty, and a render
  at 3 after it draws exactly the first three parts.
\<close>

theorem backward_count_resets:
  assumes "committed h" and "n < previousIncorrectGuessCountRef h"
  shows "update n h = forwardDraw n (resetCanvas (h\<lparr>incorrectGuessCount := n\<rparr>)) \<and>
         drawnPartsRef (resetCanvas (h\<lparr>incorrectGuessCount := n\<rparr>)) = 0 \<and>
         strokes (canvas (resetCanvas (h\<lparr>incorrectGuessCount := n\<rparr>))) = [] \<and>
         (\<exists>h'. update n h = Inr h' \<and> drawnPartsRef h' = n \<and>
            strokes (canvas h') = painted (slice (hangmanParts h) 0 n) \<and>
            (n = 0 \<longrightarrow> strokes (canvas h') = [] \<and>
               (\<exists>h''. update 3 h' = Inr h'' \<and>
                  strokes (canvas h'') = painted (take 3 (hangmanParts h)))))"
proof -
  from update_backward(2) [OF assms] obtain c' where
    b: "strokes c' = painted (slice (hangmanParts h) 0 n)" and
    u: "update n h =
          Inr (h\<lparr>incorrectGuessCount := n, previousIncorrectGuessCountRef := n,
                 canvas := c', drawnPartsRef := n\<rparr>)"
    by blast
  let ?h' = "h\<lparr>incorrectGuessCount := n, previousIncorrectGuessCountRef := n,
                 canvas := c', drawnPartsRef := n\<rparr>"
  have zero: "strokes (canvas ?h') = [] \<and>
      (\<exists>h''. update 3 ?h' = Inr h'' \<and> strokes (canvas h'') = painted (take 3 (hangmanParts h)))"
    if n0: "n = 0"
  proof -
    have e: "strokes (canvas ?h') = []"
      using b n0 by (simp add: slice_same painted_Nil)
    with assms(1) n0 have r': "rendered ?h'"
      by (simp add: rendered_def committed_def painted_Nil)
    from update_rendered [OF r', of 3] obtain h'' where
      "update 3 ?h' = Inr h''" "strokes (canvas h'') = painted (take (nat 3) (hangmanParts ?h'))"
      by auto
    then have "\<exists>h''. update 3 ?h' = Inr h'' \<and>
        strokes (canvas h'') = painted (take 3 (hangmanParts h))"
      by simp
    with e show ?thesis by blast
  qed
  have "\<exists>h'. update n h = Inr h' \<and> drawnPartsRef h' = n \<and>
            strokes (canvas h') = painted (slice (hangmanParts h) 0 n) \<and>
            (n = 0 \<longrightarrow> strokes (canvas h') = [] \<and>
               (\<exists>h''. update 3 h' = Inr h'' \<and>
                  strokes (canvas h'') = painted (take 3 (hangmanParts h))))"
    using u b zero by (intro exI [of _ ?h']) simp
  moreover have "drawnPartsRef (resetCanvas (h\<lparr>incorrectGuessCount := n\<rparr>)) = 0"
    "strokes (canvas (resetCanvas (h\<lparr>incorrectGuessCount := n\<rparr>))) = []"
    by (simp_all add: resetCanvas_def clearCanvas_def)
  ultimately show ?thesis
    using update_backward(1) [OF assms] by blast
qed

text \<open>
  Witness for C3: mounted with seven wrong guesses in a 350 pixel container, rendered
  with none, then with three.
\<close>

theorem backward_count_resets_witness:
  "\<exists>h h0 h3. mount 7 350 = Inr h \<and> committed h \<and> 0 < previousIncorrectGuessCountRef h \<and>
     length (strokes (canvas h)) = 7 \<and>
     update 0 h = Inr h0 \<and> drawnPartsRef h0 = 0 \<and> strokes (canvas h0) = [] \<and>
     update 3 h0 = Inr h3 \<and>
     strokes (canvas h3) =
       [(10, [MoveTo 0 350, LineTo 350 350]), (10, [MoveTo 0 0, LineTo 0 350]),
        (10, [MoveTo 0 0, LineTo 175 0])]"
proof -
  from mount_rendered [of 7 350] obtain h where
    m: "mount 7 350 = Inr h" and r: "rendered h" and d: "drawnPartsRef h = 7" and
    s: "sizeState h = Some 350" and
    st: "strokes (canvas h) = painted (take (nat 7) (getHangmanParts (Some (of_nat 350))))"
    by auto
  from r have c: "committed h" by (rule rendered_committed)
  from c d s have p: "0 < previousIncorrectGuessCountRef h"
    and hp: "hangmanParts h = getHangmanParts (Some 350)"
    by (simp_all add: committed_def)
  from backward_count_resets [OF c p] have
    "\<exists>h'. update 0 h = Inr h' \<and> drawnPartsRef h' = 0 \<and>
        strokes (canvas h') = painted (slice (hangmanParts h) 0 0) \<and>
        ((0 :: int) = 0 \<longrightarrow> strokes (canvas h') = [] \<and>
           (\<exists>h''. update 3 h' = Inr h'' \<and>
              strokes (canvas h'') = painted (take 3 (hangmanParts h))))"
    by (elim conjE)
  then obtain h0 h3 where
    "update 0 h = Inr h0" "drawnPartsRef h0 = 0" "strokes (canvas h0) = []"
    "update 3 h0 = Inr h3" "strokes (canvas h3) = painted (take 3 (hangmanParts h))"
    by blast
  moreover have "painted (take 3 (getHangmanParts (Some 350))) =
       [(10, [MoveTo 0 350, LineTo 350 350]), (10, [MoveTo 0 0, LineTo 0 350]),
        (10, [MoveTo 0 0, LineTo 175 0])]"
    by (simp add: evaluate_painted)
  moreover have "length (strokes (canvas h)) = 7"
    unfolding st by (simp add: evaluate_painted)
  ultimately show ?thesis
    using m c p unfolding hp
    by (intro exI [of _ h] exI [of _ h0] exI [of _ h3]) simp
qed

text \<open>
  C4, as stated, fails: mounted with guess count 12 the component stores 12 in
  \<open>drawnPartsRef\<close>, not the clamped 10; mounted with guess count -3 it stores -3 (the
  claim: 0) and the bitmap shows seven parts, not the first 0. Nothing in the code
  clamps the count.
\<close>

theorem drawn_count_clamped_counterexample:
  "map_sum id drawnPartsRef (mount 12 350) = Inr 12 \<and>
   (12 :: int) \<noteq> max 0 (min 10 12) \<and>
   map_sum id drawnPartsRef (mount (- 3) 350) = Inr (- 3) \<and>
   map_sum id (\<lambda>h. length (strokes (canvas h))) (mount (- 3) 350) = Inr 7"
proof -
  from mount_result [of 350 12] have a: "map_sum id drawnPartsRef (mount 12 350) = Inr 12"
    by auto
  from mount_result [of 350 "- 3"] obtain c' where
    b: "strokes c' = painted (slice (getHangmanParts (Some (of_nat 350))) 0 (- 3))" and
    m: "mount (- 3) 350 =
       Inr \<lparr>incorrectGuessCount = - 3, sizeState = Some (of_nat 350),
            hangmanParts = getHangmanParts (Some (of_nat 350)), partsInstance = 2,
            drawnPartsRef = - 3, previousIncorrectGuessCountRef = - 3,
            canvas = c', containerRef = True, listening = True, pending = False\<rparr>"
    by blast
  have "length (painted (slice (getHangmanParts (Some (of_nat 350))) 0 (- 3))) = 7"
    by (simp add: slice_def evaluate_painted)
  with b have "length (strokes c') = 7" by simp
  with a show ?thesis unfolding m by simp
qed

text \<open>
  C4, amended. After every render \<open>drawnPartsRef\<close> holds the guess count of that render
  as it is, not clamped, whatever the count: after the mount, after a render with a
  new count and after a resize the state is \<open>committed\<close>. As long as no guess count
  is negative the state is also \<open>rendered\<close>: the bitmap shows exactly the first
  \<open>min(drawnPartsRef, 10)\<close> parts, painted once each in order.
\<close>

theorem drawn_count_is_guess_count:
  "(\<exists>h0. mount n w = Inr h0 \<and> committed h0 \<and> drawnPartsRef h0 = n \<and>
      (0 \<le> n \<longrightarrow> rendered h0)) \<and>
   (committed h \<longrightarrow>
      incorrectGuessCount h = drawnPartsRef h \<and>
      (\<exists>h'. update m h = Inr h' \<and> committed h' \<and> drawnPartsRef h' = m) \<and>
      (containerRef h \<longrightarrow>
         (\<exists>h'. resizeCanvas w' h = Inr h' \<and> committed h' \<and>
            drawnPartsRef h' = drawnPartsRef h))) \<and>
   (rendered h \<longrightarrow>
      strokes (canvas h) = painted (take (nat (min (drawnPartsRef h) 10)) (hangmanParts h)) \<and>
      (0 \<le> m \<longrightarrow> (\<exists>h'. update m h = Inr h' \<and> rendered h')) \<and>
      (containerRef h \<longrightarrow> (\<exists>h'. resizeCanvas w' h = Inr h' \<and> rendered h')))"
proof (intro conjI impI)
  show "\<exists>h0. mount n w = Inr h0 \<and> committed h0 \<and> drawnPartsRef h0 = n \<and>
      (0 \<le> n \<longrightarrow> rendered h0)"
  proof (cases "0 \<le> n")
    case True
    from mount_rendered [OF True, of w] show ?thesis
      by (blast intro: rendered_committed)
  next
    case False
    from mount_committed [of n w] obtain h0 where
      "mount n w = Inr h0" "committed h0" "drawnPartsRef h0 = n"
      by blast
    with False show ?thesis by blast
  qed
next
  assume c: "committed h"
  then show "incorrectGuessCount h = drawnPartsRef h"
    by (simp add: committed_def)
  from update_keeps_committed [OF c, of m]
  show "\<exists>h'. update m h = Inr h' \<and> committed h' \<and> drawnPartsRef h' = m"
    by blast
next
  assume "committed h" and "containerRef h"
  from resize_committed [OF this, of w']
  show "\<exists>h'. resizeCanvas w' h = Inr h' \<and> committed h' \<and> drawnPartsRef h' = drawnPartsRef h"
    by blast
next
  assume r: "rendered h"
  then have "length (hangmanParts h) = 10" by (rule rendered_length)
  with r show "strokes (canvas h) =
      painted (take (nat (min (drawnPartsRef h) 10)) (hangmanParts h))"
    by (simp add: take_min_ten rendered_def)
next
  assume "rendered h" and "0 \<le> m"
  from update_rendered [OF this] show "\<exists>h'. update m h = Inr h' \<and> rendered h'"
    by blast
next
  assume "rendered h" and "containerRef h"
  from resize_rendered [OF this, of w'] show "\<exists>h'. resizeCanvas w' h = Inr h' \<and> rendered h'"
    by blast
qed

text \<open>
  Witness for C4: mounted with twelve wrong guesses in a 350 pixel container (all ten
  parts on the bitmap, drawn count 12), then rendered with four, or resized to 400
  pixels.
\<close>

theorem drawn_count_is_guess_count_witness:
  "\<exists>h h' h'' h3 h4. mount 12 350 = Inr h \<and> (0 :: int) \<le> 12 \<and> committed h \<and> rendered h \<and>
     containerRef h \<and> drawnPartsRef h = 12 \<and> incorrectGuessCount h = 12 \<and>
     length (strokes (canvas h)) = 10 \<and>
     update 4 h = Inr h' \<and> (0 :: int) \<le> 4 \<and> drawnPartsRef h' = 4 \<and> committed h' \<and>
     update 4 h = Inr h3 \<and> rendered h3 \<and>
     resizeCanvas 400 h = Inr h'' \<and> committed h'' \<and> drawnPartsRef h'' = 12 \<and>
     resizeCanvas 400 h = Inr h4 \<and> rendered h4"
proof -
  from drawn_count_is_guess_count [of 12 350, THEN conjunct1] obtain h where
    m: "mount 12 350 = Inr h" and d: "drawnPartsRef h = 12" and c: "committed h" and
    r: "rendered h"
    by auto
  from mount_committed [of 12 350] m have k: "containerRef h" by auto
  from c have hp: "hangmanParts h = getHangmanParts (sizeState h)"
    and ok: "sizeOk (sizeState h)"
    by (simp_all add: committed_def)
  from drawn_count_is_guess_count [of 12 350 h 4 400] c r k d obtain h' h'' h3 h4 where
    g: "incorrectGuessCount h = 12" and
    s: "strokes (canvas h) = painted (take (nat (min 12 10)) (hangmanParts h))" and
    u: "update 4 h = Inr h'" "drawnPartsRef h' = 4" "committed h'" and
    u3: "update 4 h = Inr h3" "rendered h3" and
    z: "resizeCanvas 400 h = Inr h''" "committed h''" "drawnPartsRef h'' = 12" and
    z4: "resizeCanvas 400 h = Inr h4" "rendered h4"
    by auto
  have "length (painted (take (nat (min 12 10)) (hangmanParts h))) = 10"
    unfolding hp using painted_take_parts_length [OF ok, of "nat (min 12 10)"] by simp
  with s have "length (strokes (canvas h)) = 10" by simp
  with m c r k d g u u3 z z4 show ?thesis
    by (intro exI [of _ h] exI [of _ h'] exI [of _ h''] exI [of _ h3] exI [of _ h4]) simp
qed

text \<open>
  C5. A render in which \<open>size\<close> changed (to a size the container can have) calls
  \<open>getHangmanParts\<close> for the new size, which gives a new array instance, and is the
  forward draw run on a state with drawn count 0 and an empty bitmap: what
  \<open>slice(0, n)\<close> selects of the new array is then drawn, the first \<open>n\<close> parts for a
  guess count \<open>n \<ge> 0\<close>. A render in which only the guess count changed keeps the array
  and its instance.
\<close>

theorem size_change_regenerates:
  assumes "committed h" and "sizeOk size'" and "size' \<noteq> sizeState h"
  shows "(\<exists>h0. drawnPartsRef h0 = 0 \<and> strokes (canvas h0) = [] \<and>
            hangmanParts h0 = getHangmanParts size' \<and>
            render size' n h = forwardDraw n h0) \<and>
         (\<exists>h'. render size' n h = Inr h' \<and> sizeState h' = size' \<and>
            hangmanParts h' = getHangmanParts size' \<and>
            partsInstance h' = Suc (partsInstance h) \<and> drawnPartsRef h' = n \<and>
            strokes (canvas h') = painted (slice (getHangmanParts size') 0 n) \<and>
            (0 \<le> n \<longrightarrow>
               strokes (canvas h') = painted (take (nat n) (getHangmanParts size')))) \<and>
         (\<exists>h''. update m h = Inr h'' \<and> hangmanParts h'' = hangmanParts h \<and>
            partsInstance h'' = partsInstance h \<and> sizeState h'' = sizeState h)"
proof (intro conjI)
  let ?h0 = "resetCanvas (h\<lparr>sizeState := size', hangmanParts := getHangmanParts size',
             partsInstance := Suc (partsInstance h), canvas := freshCanvas,
             incorrectGuessCount := n\<rparr>)"
  have "drawnPartsRef ?h0 = 0" "strokes (canvas ?h0) = []"
    "hangmanParts ?h0 = getHangmanParts size'"
    by (simp_all add: resetCanvas_def clearCanvas_def freshCanvas_def)
  with render_new_size(1) [OF assms(2,3), of n]
  show "\<exists>h0. drawnPartsRef h0 = 0 \<and> strokes (canvas h0) = [] \<and>
            hangmanParts h0 = getHangmanParts size' \<and>
            render size' n h = forwardDraw n h0"
    by blast
next
  from render_new_size(2) [OF assms(2,3), of n] obtain c' where
    b: "strokes c' = painted (slice (getHangmanParts size') 0 n)" and
    u: "render size' n h =
          Inr (h\<lparr>sizeState := size', hangmanParts := getHangmanParts size',
                 partsInstance := Suc (partsInstance h), incorrectGuessCount := n,
                 previousIncorrectGuessCountRef := n, canvas := c', drawnPartsRef := n\<rparr>)"
    by blast
  let ?h' = "h\<lparr>sizeState := size', hangmanParts := getHangmanParts size',
                 partsInstance := Suc (partsInstance h), incorrectGuessCount := n,
                 previousIncorrectGuessCountRef := n, canvas := c', drawnPartsRef := n\<rparr>"
  from b have "0 \<le> n \<longrightarrow> strokes c' = painted (take (nat n) (getHangmanParts size'))"
    by (simp add: slice_from_zero)
  with u b show "\<exists>h'. render size' n h = Inr h' \<and> sizeState h' = size' \<and>
            hangmanParts h' = getHangmanParts size' \<and>
            partsInstance h' = Suc (partsInstance h) \<and> drawnPartsRef h' = n \<and>
            strokes (canvas h') = painted (slice (getHangmanParts size') 0 n) \<and>
            (0 \<le> n \<longrightarrow>
               strokes (canvas h') = painted (take (nat n) (getHangmanParts size')))"
    by (intro exI [of _ ?h']) simp
next
  from update_keeps_committed [OF assms(1), of m]
  show "\<exists>h''. update m h = Inr h'' \<and> hangmanParts h'' = hangmanParts h \<and>
            partsInstance h'' = partsInstance h \<and> sizeState h'' = sizeState h"
    by blast
qed

text \<open>
  Witness for C5: mounted with five wrong guesses in a 300 pixel container; the
  container becomes 400 pixels wide, or the guess count becomes eight.
\<close>

theorem size_change_regenerates_witness:
  "\<exists>h h' h''. mount 5 300 = Inr h \<and> committed h \<and> sizeOk (Some 400) \<and>
     Some 400 \<noteq> sizeState h \<and> (0 :: int) \<le> 5 \<and> partsInstance h = 2 \<and>
     render (Some 400) 5 h = Inr h' \<and> partsInstance h' = 3 \<and>
     hangmanParts h' = getHangmanParts (Some 400) \<and>
     strokes (canvas h') =
       [(10, [MoveTo 0 400, LineTo 400 400]), (10, [MoveTo 0 0, LineTo 0 400]),
        (10, [MoveTo 0 0, LineTo 200 0]), (2, [MoveTo 200 0, LineTo 200 40]),
        (2, [Arc 200 65 25 0 2 True])] \<and>
     update 8 h = Inr h'' \<and> partsInstance h'' = 2 \<and> hangmanParts h'' = hangmanParts h"
proof -
  from mount_committed [of 5 300] obtain h where
    m: "mount 5 300 = Inr h" and c: "committed h" and s: "sizeState h = Some 300" and
    i: "partsInstance h = 2"
    by auto
  have ok: "sizeOk (Some 400)" by (simp add: sizeOk_def)
  from s have ne: "Some 400 \<noteq> sizeState h" by simp
  from size_change_regenerates [OF c ok ne, of 5 8] obtain h' h'' where
    a: "render (Some 400) 5 h = Inr h'" "partsInstance h' = Suc (partsInstance h)"
      "hangmanParts h' = getHangmanParts (Some 400)"
      "strokes (canvas h') = painted (take (nat 5) (getHangmanParts (Some 400)))" and
    b: "update 8 h = Inr h''" "partsInstance h'' = partsInstance h"
      "hangmanParts h'' = hangmanParts h"
    by auto
  have e: "painted (take (nat 5) (getHangmanParts (Some 400))) =
       [(10, [MoveTo 0 400, LineTo 400 400]), (10, [MoveTo 0 0, LineTo 0 400]),
        (10, [MoveTo 0 0, LineTo 200 0]), (2, [MoveTo 200 0, LineTo 200 40]),
        (2, [Arc 200 65 25 0 2 True])]"
    by (simp add: evaluate_painted)
  from m c ok ne i a b show ?thesis
    unfolding e by (intro exI [of _ h] exI [of _ h'] exI [of _ h'']) simp
qed

text \<open>
  C6. At a fixed size, rendering through the guess counts 0, 1, ..., 10 one after the
  other leaves the same marks on the bitmap as one render at 10: the ten parts, once
  each, in order. This holds when the sequence starts with the mount at 0 and is
  compared with a mount at 10, and when both start from the same state between
  renders.
\<close>

theorem incremental_equals_batch:
  "(\<exists>h0 hs hb. mount 0 w = Inr h0 \<and> updates [1, 2, 3, 4, 5, 6, 7, 8, 9, 10] h0 = Inr hs \<and>
      mount 10 w = Inr hb \<and> strokes (canvas hs) = strokes (canvas hb) \<and>
      strokes (canvas hb) = painted (getHangmanParts (Some (of_nat w)))) \<and>
   (rendered h \<longrightarrow>
      (\<exists>hs hb. updates [0, 1, 2, 3, 4, 5, 6, 7, 8, 9, 10] h = Inr hs \<and>
         update 10 h = Inr hb \<and> strokes (canvas hs) = strokes (canvas hb) \<and>
         strokes (canvas hb) = painted (hangmanParts h)))"
proof (intro conjI impI)
  from mount_rendered [of 0 w] obtain h0 where
    m0: "mount 0 w = Inr h0" and r0: "rendered h0" and s0: "sizeState h0 = Some (of_nat w)"
    by auto
  from r0 s0 have p0: "hangmanParts h0 = getHangmanParts (Some (of_nat w))"
    by (simp add: rendered_def committed_def)
  from updates_rendered [OF r0, of "[1, 2, 3, 4, 5, 6, 7, 8, 9, 10]"] obtain hs where
    us: "updates [1, 2, 3, 4, 5, 6, 7, 8, 9, 10] h0 = Inr hs" and rs: "rendered hs" and
    ps: "hangmanParts hs = hangmanParts h0" and ds: "drawnPartsRef hs = 10"
    by auto
  from rendered_strokes [OF rs] ds ps p0
  have ss: "strokes (canvas hs) = painted (getHangmanParts (Some (of_nat w)))" by simp
  from mount_rendered [of 10 w] obtain hb where
    mb: "mount 10 w = Inr hb" and rb: "rendered hb" and db: "drawnPartsRef hb = 10" and
    sb: "sizeState hb = Some (of_nat w)"
    by auto
  from rb sb have pb: "hangmanParts hb = getHangmanParts (Some (of_nat w))"
    by (simp add: rendered_def committed_def)
  from rendered_strokes [OF rb] db pb
  have "strokes (canvas hb) = painted (getHangmanParts (Some (of_nat w)))" by simp
  with m0 us mb ss
  show "\<exists>h0 hs hb. mount 0 w = Inr h0 \<and> updates [1, 2, 3, 4, 5, 6, 7, 8, 9, 10] h0 = Inr hs \<and>
      mount 10 w = Inr hb \<and> strokes (canvas hs) = strokes (canvas hb) \<and>
      strokes (canvas hb) = painted (getHangmanParts (Some (of_nat w)))"
    by (intro exI [of _ h0] exI [of _ hs] exI [of _ hb]) simp
next
  assume r: "rendered h"
  from updates_rendered [OF r, of "[0, 1, 2, 3, 4, 5, 6, 7, 8, 9, 10]"] obtain hs where
    us: "updates [0, 1, 2, 3, 4, 5, 6, 7, 8, 9, 10] h = Inr hs" and rs: "rendered hs" and
    ps: "hangmanParts hs = hangmanParts h" and ds: "drawnPartsRef hs = 10"
    by auto
  from rendered_strokes [OF rs] ds ps
  have ss: "strokes (canvas hs) = painted (hangmanParts h)" by simp
  from update_rendered [OF r, of 10] obtain hb where
    ub: "update 10 h = Inr hb" and rb: "rendered hb" and db: "drawnPartsRef hb = 10" and
    pb: "hangmanParts hb = hangmanParts h"
    by auto
  from rendered_strokes [OF rb] db pb
  have "strokes (canvas hb) = painted (hangmanParts h)" by simp
  with us ub ss
  show "\<exists>hs hb. updates [0, 1, 2, 3, 4, 5, 6, 7, 8, 9, 10] h = Inr hs \<and>
         update 10 h = Inr hb \<and> strokes (canvas hs) = strokes (canvas hb) \<and>
         strokes (canvas hb) = painted (hangmanParts h)"
    by (intro exI [of _ hs] exI [of _ hb]) simp
qed

text \<open>Witness for C6: the state after mounting with four wrong guesses, 350 pixels wide.\<close>

theorem incremental_equals_batch_witness:
  "\<exists>h hs hb. mount 4 350 = Inr h \<and> rendered h \<and>
     updates [0, 1, 2, 3, 4, 5, 6, 7, 8, 9, 10] h = Inr hs \<and> update 10 h = Inr hb \<and>
     strokes (canvas hs) = strokes (canvas hb) \<and>
     strokes (canvas hb) =
       [(10, [MoveTo 0 350, LineTo 350 350]), (10, [MoveTo 0 0, LineTo 0 350]),
        (10, [MoveTo 0 0, LineTo 175 0]), (2, [MoveTo 175 0, LineTo 175 35]),
        (2, [Arc 175 (455 / 8) (175 / 8) 0 2 True]),
        (2, [MoveTo 175 (315 / 4), LineTo 175 175]),
        (2, [MoveTo 175 (350 / 3), LineTo (350 / 3) (350 / 3)]),
        (2, [MoveTo 175 (350 / 3), LineTo (700 / 3) (350 / 3)]),
        (2, [MoveTo 175 175, LineTo (350 / 3) (700 / 3)]),
        (2, [MoveTo 175 175, LineTo (700 / 3) (700 / 3)])]"
proof -
  from mount_rendered [of 4 350] obtain h where
    m: "mount 4 350 = Inr h" and r: "rendered h" and s: "sizeState h = Some 350"
    by auto
  from r s have hp: "hangmanParts h = getHangmanParts (Some 350)"
    by (simp add: rendered_def committed_def)
  from incremental_equals_batch [of 350 h] r obtain hs hb where
    "updates [0, 1, 2, 3, 4, 5, 6, 7, 8, 9, 10] h = Inr hs" "update 10 h = Inr hb"
    "strokes (canvas hs) = strokes (canvas hb)"
    "strokes (canvas hb) = painted (hangmanParts h)"
    by blast
  moreover have "painted (getHangmanParts (Some 350)) =
       [(10, [MoveTo 0 350, LineTo 350 350]), (10, [MoveTo 0 0, LineTo 0 350]),
        (10, [MoveTo 0 0, LineTo 175 0]), (2, [MoveTo 175 0, LineTo 175 35]),
        (2, [Arc 175 (455 / 8) (175 / 8) 0 2 True]),
        (2, [MoveTo 175 (315 / 4), LineTo 175 175]),
        (2, [MoveTo 175 (350 / 3), LineTo (350 / 3) (350 / 3)]),
        (2, [MoveTo 175 (350 / 3), LineTo (700 / 3) (350 / 3)]),
        (2, [MoveTo 175 175, LineTo (350 / 3) (700 / 3)]),
        (2, [MoveTo 175 175, LineTo (700 / 3) (700 / 3)])]"
    by (simp add: evaluate_painted)
  ultimately show ?thesis
    using m r unfolding hp by (intro exI [of _ h] exI [of _ hs] exI [of _ hb]) simp
qed

text \<open>
  C7. At a fixed size, after a render with the guess count \<open>n\<close> a second render with
  the same \<open>n\<close> changes nothing, the bitmap included. No effect runs, since no
  dependency changed; and were the draw effect run again, its slice from the drawn
  count to \<open>n\<close> would be empty and it would leave the state as it is. This holds for
  every \<open>n\<close>, so for \<open>n\<close> from 0 to 10.
\<close>

theorem rerender_same_count:
  assumes "committed h"
  shows "\<exists>h'. update n h = Inr h' \<and> update n h' = Inr h' \<and>
           slice (hangmanParts h') (drawnPartsRef h') n = [] \<and>
           drawEffect n h' = Inr h'"
proof -
  from update_keeps_committed [OF assms, of n] obtain h' where
    u: "update n h = Inr h'" and c: "committed h'" and d: "drawnPartsRef h' = n"
    by blast
  from c d have g: "incorrectGuessCount h' = n" and p: "previousIncorrectGuessCountRef h' = n"
    by (simp_all add: committed_def)
  from u update_same_count [OF g] drawEffect_same_count [OF p d] d
  show ?thesis by (intro exI [of _ h']) (simp add: slice_same)
qed

text \<open>
  Witness for C7: mounted with no wrong guess, 350 pixels wide, then rendered twice
  with five.
\<close>

theorem rerender_same_count_witness:
  "\<exists>h h'. mount 0 350 = Inr h \<and> committed h \<and>
     update 5 h = Inr h' \<and> length (strokes (canvas h')) = 5 \<and> update 5 h' = Inr h' \<and>
     slice (hangmanParts h') (drawnPartsRef h') 5 = [] \<and> drawEffect 5 h' = Inr h'"
proof -
  from mount_rendered [of 0 350] obtain h where
    m: "mount 0 350 = Inr h" and r: "rendered h" and s: "sizeState h = Some 350"
    by auto
  from r have c: "committed h" by (rule rendered_committed)
  from c s have hp: "hangmanParts h = getHangmanParts (Some 350)"
    by (simp add: committed_def)
  from rerender_same_count [OF c, of 5] obtain h' where
    a: "update 5 h = Inr h'" "update 5 h' = Inr h'"
      "slice (hangmanParts h') (drawnPartsRef h') 5 = []" "drawEffect 5 h' = Inr h'"
    by auto
  from update_rendered [OF r, of 5] a(1)
  have "strokes (canvas h') = painted (take (nat 5) (hangmanParts h))" by auto
  then have "length (strokes (canvas h')) = 5"
    unfolding hp by (simp add: evaluate_painted)
  with m c a show ?thesis
    by (intro exI [of _ h] exI [of _ h']) simp
qed

text \<open>
  C8, as stated, fails at size 240: a leg is the diagonal from (120, 120) to
  (120 \<plusminus> 40, 160), whose squared length is 3200 and not \<open>(240 / 6)\<^sup>2\<close>, and the body
  segment spans 66 pixels, from \<open>y = 54\<close> to \<open>y = 120\<close>, not \<open>240 / 2\<close>. All numbers
  involved are exact as doubles too.
\<close>

theorem proportions_counterexample:
  "lengthSquared (partPath (leftLeg (Some 240))) = Some 3200 \<and>
   lengthSquared (partPath (rightLeg (Some 240))) = Some 3200 \<and>
   Some (3200 :: rat) \<noteq> Some ((240 / 6) * (240 / 6)) \<and>
   extent (partPath (body (Some 240))) = Some (0, 66) \<and>
   (66 :: rat) \<noteq> 240 / 2"
  by (simp add: geometry_defs lengthSquared_def)

text \<open>
  C8, amended. For every size \<open>s \<ge> 0\<close>: the rope is the vertical segment of length
  \<open>s / 10\<close> from \<open>(s / 2, 0)\<close>; the head is a full arc of radius \<open>s / 16\<close> centred at
  \<open>(s / 2, s / 10 + s / 16)\<close>, one radius below the rope's end; the body runs from
  \<open>y = s / 10 + s / 8\<close> down to \<open>y = s / 2\<close> (\<open>bodyHeight = s / 2\<close> places its lower
  end; the segment is \<open>11 s / 40\<close> long); each arm is a horizontal segment of length
  \<open>s / 6\<close> at \<open>y = s / 3\<close>; each leg starts at the body's lower end and reaches
  \<open>s / 6\<close> sideways and \<open>s / 6\<close> down, so its squared length is twice that of an arm.
\<close>

theorem proportions:
  assumes "0 \<le> s"
  shows "partPath (rope (Some s)) = [MoveTo (s / 2) 0, LineTo (s / 2) (s / 10)] \<and>
    lengthSquared (partPath (rope (Some s))) = Some ((s / 10) * (s / 10)) \<and>
    partPath (head (Some s)) = [Arc (s / 2) (s / 10 + s / 16) (s / 16) 0 2 True] \<and>
    partPath (body (Some s)) = [MoveTo (s / 2) (s / 10 + s / 8), LineTo (s / 2) (s / 2)] \<and>
    extent (partPath (body (Some s))) = Some (0, 11 * s / 40) \<and>
    partPath (leftArm (Some s)) = [MoveTo (s / 2) (s / 3), LineTo (s / 2 - s / 6) (s / 3)] \<and>
    lengthSquared (partPath (leftArm (Some s))) = Some ((s / 6) * (s / 6)) \<and>
    partPath (rightArm (Some s)) = [MoveTo (s / 2) (s / 3), LineTo (s / 2 + s / 6) (s / 3)] \<and>
    lengthSquared (partPath (rightArm (Some s))) = Some ((s / 6) * (s / 6)) \<and>
    partPath (leftLeg (Some s)) = [MoveTo (s / 2) (s / 2), LineTo (s / 2 - s / 6) (s / 2 + s / 6)] \<and>
    extent (partPath (leftLeg (Some s))) = Some (- (s / 6), s / 6) \<and>
    partPath (rightLeg (Some s)) = [MoveTo (s / 2) (s / 2), LineTo (s / 2 + s / 6) (s / 2 + s / 6)] \<and>
    extent (partPath (rightLeg (Some s))) = Some (s / 6, s / 6) \<and>
    lengthSquared (partPath (leftLeg (Some s))) = Some (2 * ((s / 6) * (s / 6))) \<and>
    lengthSquared (partPath (rightLeg (Some s))) = Some (2 * ((s / 6) * (s / 6)))"
  using assms by (simp add: geometry_defs lengthSquared_def)

text \<open>Witness for C8 at size 240.\<close>

theorem proportions_witness:
  "(0 :: rat) \<le> 240 \<and>
    partPath (rope (Some 240)) = [MoveTo 120 0, LineTo 120 24] \<and>
    lengthSquared (partPath (rope (Some 240))) = Some (24 * 24) \<and>
    partPath (head (Some 240)) = [Arc 120 39 15 0 2 True] \<and>
    partPath (body (Some 240)) = [MoveTo 120 54, LineTo 120 120] \<and>
    extent (partPath (body (Some 240))) = Some (0, 66) \<and>
    partPath (leftArm (Some 240)) = [MoveTo 120 80, LineTo 80 80] \<and>
    lengthSquared (partPath (leftArm (Some 240))) = Some (40 * 40) \<and>
    partPath (rightArm (Some 240)) = [MoveTo 120 80, LineTo 160 80] \<and>
    lengthSquared (partPath (rightArm (Some 240))) = Some (40 * 40) \<and>
    partPath (leftLeg (Some 240)) = [MoveTo 120 120, LineTo 80 160] \<and>
    extent (partPath (leftLeg (Some 240))) = Some (- 40, 40) \<and>
    partPath (rightLeg (Some 240)) = [MoveTo 120 120, LineTo 160 160] \<and>
    extent (partPath (rightLeg (Some 240))) = Some (40, 40) \<and>
    lengthSquared (partPath (leftLeg (Some 240))) = Some 3200 \<and>
    lengthSquared (partPath (rightLeg (Some 240))) = Some 3200"
  using proportions [of 240] by (simp add: lengthSquared_def)

text \<open>
  C9 (the code differs from the claim). The cleanup of the resize effect removes the
  listener and does nothing else: a timer that \<open>debounce\<close> armed before the unmount
  stays armed. When it runs out, \<open>resizeCanvas\<close> runs on the unmounted component and
  \<open>getComputedStyle\<close> throws on the detached container ref. Here: mounted in a 350 pixel
  container, a resize event, the unmount, then the timer. Resize events after the
  unmount do nothing.
\<close>

theorem unmount_leaves_timer_armed:
  "\<exists>h. mount 0 350 = Inr h \<and> listening h \<and> \<not> pending h \<and>
     pending (windowResize h) \<and>
     \<not> listening (unmount (windowResize h)) \<and>
     windowResize (unmount h) = unmount h \<and>
     pending (unmount (windowResize h)) \<and>
     timerFires 400 (unmount (windowResize h)) = Inl TypeError"
proof -
  from mount_rendered [of 0 350] obtain h where
    "mount 0 350 = Inr h" "listening h" "\<not> pending h" "containerRef h"
    by auto
  then show ?thesis
    by (intro exI [of _ h])
       (simp add: windowResize_def unmount_def timerFires_def resizeCanvas_def)
qed

text \<open>
  C10. For a guess count \<open>n\<close> with \<open>-10 < n < 0\<close>, a render that starts from the drawn
  count 0 draws the first \<open>10 + n\<close> parts, since \<open>slice(0, n)\<close> counts a negative end
  from the end of the ten parts, and then stores \<open>n\<close> itself as the drawn count. This
  is so when the component is mounted with \<open>n\<close>, and when \<open>n\<close> follows a larger count
  (the backward reset sets the drawn count to 0 first).
\<close>

theorem negative_count_draws_from_end:
  assumes "- 10 < n" and "n < 0"
  shows "slice (getHangmanParts size') 0 n = take (nat (10 + n)) (getHangmanParts size') \<and>
         (\<exists>h0. mount n w = Inr h0 \<and> drawnPartsRef h0 = n \<and>
            strokes (canvas h0) = painted (take (nat (10 + n)) (hangmanParts h0)) \<and>
            length (strokes (canvas h0)) = nat (10 + n)) \<and>
         (committed h \<and> n < previousIncorrectGuessCountRef h \<longrightarrow>
            (\<exists>h'. update n h = Inr h' \<and> drawnPartsRef h' = n \<and>
               strokes (canvas h') = painted (take (nat (10 + n)) (hangmanParts h)) \<and>
               length (strokes (canvas h')) = nat (10 + n)))"
proof (intro conjI impI)
  have sl: "slice (getHangmanParts s) 0 n = take (nat (10 + n)) (getHangmanParts s)" for s
    using assms(2) by (simp add: slice_zero_negative length_getHangmanParts)
  show "slice (getHangmanParts size') 0 n = take (nat (10 + n)) (getHangmanParts size')"
    by (rule sl)
  have len: "sizeOk s \<Longrightarrow>
      length (painted (take (nat (10 + n)) (getHangmanParts s))) = nat (10 + n)" for s
    using assms by (simp add: painted_take_parts_length)
  show "\<exists>h0. mount n w = Inr h0 \<and> drawnPartsRef h0 = n \<and>
            strokes (canvas h0) = painted (take (nat (10 + n)) (hangmanParts h0)) \<and>
            length (strokes (canvas h0)) = nat (10 + n)"
  proof -
    from mount_result [of w n] obtain c' where
      b: "strokes c' = painted (slice (getHangmanParts (Some (of_nat w))) 0 n)" and
      m: "mount n w =
        Inr \<lparr>incorrectGuessCount = n, sizeState = Some (of_nat w),
            hangmanParts = getHangmanParts (Some (of_nat w)), partsInstance = 2,
            drawnPartsRef = n, previousIncorrectGuessCountRef = n,
            canvas = c', containerRef = True, listening = True, pending = False\<rparr>"
      by blast
    have ok: "sizeOk (Some (of_nat w))" by (simp add: sizeOk_def)
    from b have "strokes c' = painted (take (nat (10 + n)) (getHangmanParts (Some (of_nat w))))"
      unfolding sl .
    with len [OF ok] show ?thesis
      unfolding m by simp
  qed
  assume "committed h \<and> n < previousIncorrectGuessCountRef h"
  then have c: "committed h" and p: "n < previousIncorrectGuessCountRef h" by simp_all
  from c have hp: "hangmanParts h = getHangmanParts (sizeState h)"
    and ok: "sizeOk (sizeState h)"
    by (simp_all add: committed_def)
  from update_backward(2) [OF c p] obtain c' where
    b: "strokes c' = painted (slice (hangmanParts h) 0 n)" and
    u: "update n h =
          Inr (h\<lparr>incorrectGuessCount := n, previousIncorrectGuessCountRef := n,
                 canvas := c', drawnPartsRef := n\<rparr>)"
    by blast
  from b have "strokes c' = painted (take (nat (10 + n)) (hangmanParts h))"
    unfolding hp sl .
  moreover from len [OF ok]
  have "length (painted (take (nat (10 + n)) (hangmanParts h))) = nat (10 + n)"
    unfolding hp .
  ultimately show "\<exists>h'. update n h = Inr h' \<and> drawnPartsRef h' = n \<and>
               strokes (canvas h') = painted (take (nat (10 + n)) (hangmanParts h)) \<and>
               length (strokes (canvas h')) = nat (10 + n)"
    unfolding u by simp
qed

text \<open>
  Witness for C10 with \<open>n = -3\<close>: mounted with -3, and rendered with -3 after a mount
  with two wrong guesses, the bitmap shows the first seven parts.
\<close>

theorem negative_count_draws_from_end_witness:
  "\<exists>h0 h h'. (- 10 :: int) < - 3 \<and> (- 3 :: int) < 0 \<and>
     mount (- 3) 350 = Inr h0 \<and> drawnPartsRef h0 = - 3 \<and> length (strokes (canvas h0)) = 7 \<and>
     mount 2 350 = Inr h \<and> committed h \<and> - 3 < previousIncorrectGuessCountRef h \<and>
     length (strokes (canvas h)) = 2 \<and>
     update (- 3) h = Inr h' \<and> drawnPartsRef h' = - 3 \<and>
     strokes (canvas h') =
       [(10, [MoveTo 0 350, LineTo 350 350]), (10, [MoveTo 0 0, LineTo 0 350]),
        (10, [MoveTo 0 0, LineTo 175 0]), (2, [MoveTo 175 0, LineTo 175 35]),
        (2, [Arc 175 (455 / 8) (175 / 8) 0 2 True]),
        (2, [MoveTo 175 (315 / 4), LineTo 175 175]),
        (2, [MoveTo 175 (350 / 3), LineTo (350 / 3) (350 / 3)])]"
proof -
  from mount_rendered [of 2 350] obtain h where
    m: "mount 2 350 = Inr h" and r: "rendered h" and s: "sizeState h = Some 350" and
    d: "drawnPartsRef h = 2" and
    st: "strokes (canvas h) = painted (take (nat 2) (getHangmanParts (Some (of_nat 350))))"
    by auto
  from r have c: "committed h" by (rule rendered_committed)
  from c s d have hp: "hangmanParts h = getHangmanParts (Some 350)"
    and p: "- 3 < previousIncorrectGuessCountRef h"
    by (simp_all add: committed_def)
  have l2: "length (strokes (canvas h)) = 2"
    unfolding st by (simp add: evaluate_painted)
  have "- 10 < (- 3 :: int)" "(- 3 :: int) < 0" by simp_all
  from negative_count_draws_from_end [OF this, of _ 350 h] c p obtain h0 h' where
    a: "mount (- 3) 350 = Inr h0" "drawnPartsRef h0 = - 3"
      "length (strokes (canvas h0)) = nat (10 + - 3)" and
    b: "update (- 3) h = Inr h'" "drawnPartsRef h' = - 3"
      "strokes (canvas h') = painted (take (nat (10 + - 3)) (hangmanParts h))"
    by blast
  have e: "painted (take (nat (10 + - 3)) (getHangmanParts (Some 350))) =
       [(10, [MoveTo 0 350, LineTo 350 350]), (10, [MoveTo 0 0, LineTo 0 350]),
        (10, [MoveTo 0 0, LineTo 175 0]), (2, [MoveTo 175 0, LineTo 175 35]),
        (2, [Arc 175 (455 / 8) (175 / 8) 0 2 True]),
        (2, [MoveTo 175 (315 / 4), LineTo 175 175]),
        (2, [MoveTo 175 (350 / 3), LineTo (350 / 3) (350 / 3)])]"
    by (simp add: evaluate_painted)
  from m c p l2 a b show ?thesis
    unfolding hp e by (intro exI [of _ h0] exI [of _ h] exI [of _ h']) simp
qed

end
